theory Spec2Isabelle
  imports Complex_Main
begin

section \<open>Python strings and values\<close>

text \<open>
  A Python \<open>str\<close> is a sequence of Unicode code points, and \<open>len\<close> counts code
  points; a string is therefore a list of code points (natural numbers), not a list of
  bytes. \<open>cp\<close> turns an ASCII literal into its code points; \<open>u\<close> with diaeresis is
  code point 252.
\<close>

type_synonym pystr = "nat list"

definition cp :: "string \<Rightarrow> pystr" where
  "cp s = map of_char s"

text \<open>
  The code points Python treats as whitespace. \<open>str.split()\<close>, \<open>str.strip()\<close> and
  the \<open>\s\<close> class of \<open>re\<close> on a \<open>str\<close> pattern all use the same test.
\<close>

definition is_space :: "nat \<Rightarrow> bool" where
  "is_space c =
     ((9 \<le> c \<and> c \<le> 13) \<or> (28 \<le> c \<and> c \<le> 32) \<or> c = 133 \<or> c = 160 \<or> c = 5760
      \<or> (8192 \<le> c \<and> c \<le> 8202) \<or> c = 8232 \<or> c = 8233 \<or> c = 8239 \<or> c = 8287
      \<or> c = 12288)"

definition SPACE :: nat where "SPACE = 32"
definition PIPE :: nat where "PIPE = 124"
definition SLASH :: nat where "SLASH = 47"

text \<open>\<open>s.strip()\<close>: whitespace removed at both ends.\<close>

definition py_strip :: "pystr \<Rightarrow> pystr" where
  "py_strip s = rev (dropWhile is_space (rev (dropWhile is_space s)))"

text \<open>\<open>s.split(sep)\<close> for a one-character separator: empty pieces are kept, and the
  empty string splits into one empty piece.\<close>

fun py_split_on :: "nat \<Rightarrow> pystr \<Rightarrow> pystr list" where
  "py_split_on d [] = [[]]"
| "py_split_on d (c # cs) =
     (if c = d then [] # py_split_on d cs
      else (case py_split_on d cs of
              [] \<Rightarrow> [[c]]
            | p # ps \<Rightarrow> (c # p) # ps))"

text \<open>\<open>s.split()\<close>: the maximal runs of non-whitespace, scanning left to right;
  \<open>cur\<close> is the word being read.\<close>

fun split_ws_from :: "pystr \<Rightarrow> pystr \<Rightarrow> pystr list" where
  "split_ws_from cur [] = (if cur = [] then [] else [cur])"
| "split_ws_from cur (c # cs) =
     (if is_space c then (if cur = [] then split_ws_from [] cs else cur # split_ws_from [] cs)
      else split_ws_from (cur @ [c]) cs)"

definition py_split :: "pystr \<Rightarrow> pystr list" where
  "py_split s = split_ws_from [] s"

text \<open>\<open>sep.join(xs)\<close>.\<close>

fun py_join :: "pystr \<Rightarrow> pystr list \<Rightarrow> pystr" where
  "py_join sep [] = []"
| "py_join sep [x] = x"
| "py_join sep (x # y # ys) = x @ sep @ py_join sep (y # ys)"

text \<open>\<open>s.startswith(p)\<close> and the substring test \<open>kw in s\<close>.\<close>

fun startswith :: "pystr \<Rightarrow> pystr \<Rightarrow> bool" where
  "startswith s [] = True"
| "startswith [] (p # ps) = False"
| "startswith (c # cs) (p # ps) = (c = p \<and> startswith cs ps)"

fun py_in :: "pystr \<Rightarrow> pystr \<Rightarrow> bool" where
  "py_in kw [] = (kw = [])"
| "py_in kw (c # cs) = (startswith (c # cs) kw \<or> py_in kw cs)"

text \<open>
  \<open>s.lower()\<close> maps each code point through Unicode's lowercase mapping. The table
  below is that mapping on Basic Latin and Latin-1, together with the code points outside
  these blocks whose lowercase form lies inside them (capital I with dot above, which
  becomes two code points, capital Y with diaeresis, capital sharp s, the Kelvin and
  Angstrom signs). Every other code point is left as it is: its lowercase form lies
  outside Latin-1, so it cannot take part in a match against the keywords and the prefix
  of this program, which are all Latin-1.
\<close>

definition lower_cp :: "nat \<Rightarrow> pystr" where
  "lower_cp c =
     (if 65 \<le> c \<and> c \<le> 90 then [c + 32]
      else if 192 \<le> c \<and> c \<le> 222 \<and> c \<noteq> 215 then [c + 32]
      else if c = 304 then [105, 775]
      else if c = 376 then [255]
      else if c = 7838 then [223]
      else if c = 8490 then [107]
      else if c = 8491 then [229]
      else [c])"

definition py_lower :: "pystr \<Rightarrow> pystr" where
  "py_lower s = concat (map lower_cp s)"

text \<open>
  The values a decoded JSON document is made of, which are also the values of the
  dictionaries the extractors build. A dictionary is an association list in insertion
  order; a lookup takes the first binding of the key.
\<close>

datatype py_value =
    PNone
  | PBool bool
  | PInt int
  | PFloat real
  | PStr pystr
  | PList "py_value list"
  | PDict "(pystr \<times> py_value) list"

type_synonym py_dict = "(pystr \<times> py_value) list"

text \<open>The exceptions of the program; \<open>KeyError\<close> carries the missing key.\<close>

datatype py_error =
    ValueError
  | JSONDecodeError
  | KeyError "pystr option"
  | TypeError
  | IndexError
  | AttributeError
  | RuntimeError
  | ConnectionError
  | UnicodeEncodeError

section \<open>The heuristic extractor and the fallback builder\<close>

text \<open>The dictionary literal that all three builders return.\<close>

definition mk_info :: "pystr \<Rightarrow> pystr list \<Rightarrow> pystr \<Rightarrow> pystr \<Rightarrow> py_dict" where
  "mk_info product_name characteristics material_type short_desc =
     [(cp ''product_name'', PStr product_name),
      (cp ''characteristics'', PList (map PStr characteristics)),
      (cp ''material_type'', PStr material_type),
      (cp ''unit_of_measure'', PStr (cp ''ST'')),
      (cp ''categorization'', PDict []),
      (cp ''short_description'', PStr short_desc)]"

text \<open>\<open>[p.strip() for p in text.split('|') if p.strip()]\<close>\<close>

definition split_parts :: "pystr \<Rightarrow> pystr list" where
  "split_parts text = map py_strip (filter (\<lambda>p. py_strip p \<noteq> []) (py_split_on PIPE text))"

definition fuer_prefix :: pystr where
  "fuer_prefix = [102, 252, 114, 32]"

definition create_fallback_info :: "pystr \<Rightarrow> py_dict" where
  "create_fallback_info text =
     (case split_parts text of
        [] \<Rightarrow> mk_info [] [] (cp ''other'') []
      | p0 # rest \<Rightarrow>
          (let name = (if startswith (py_lower p0) fuer_prefix then py_strip (drop 4 p0) else p0);
               short_desc =
                 (case rest of
                    [] \<Rightarrow> name
                  | p1 # _ \<Rightarrow>
                      if int (length name) + int (length p1) + 1 \<le> 40
                      then name @ [SPACE] @ p1 else name)
           in mk_info name rest (cp ''other'') (take 40 short_desc)))"

text \<open>The keyword table, in the order the dictionary literal lists it.\<close>

definition type_keywords :: "(pystr \<times> pystr list) list" where
  "type_keywords =
     [(cp ''filter'', [cp ''filter'', cp ''wasserfilter'']),
      (cp ''electrical'',
         [cp ''sch'' @ [252] @ cp ''tz'', cp ''relais'', cp ''spannung'', cp ''leistung'']),
      (cp ''mechanical'', [cp ''lager'', cp ''welle'', cp ''ring'', cp ''buchse'']),
      (cp ''seal'', [cp ''dicht'', cp ''dichtung''])]"

text \<open>\<open>any(kw in lowered for kw in keywords)\<close>\<close>

definition any_keyword :: "pystr list \<Rightarrow> pystr \<Rightarrow> bool" where
  "any_keyword keywords lowered = list_ex (\<lambda>kw. py_in kw lowered) keywords"

text \<open>The loop over the table: the first entry with a matching keyword sets the type
  and leaves the loop; \<open>material_type\<close> is the value before the loop.\<close>

fun scan_types :: "(pystr \<times> pystr list) list \<Rightarrow> pystr \<Rightarrow> pystr \<Rightarrow> pystr" where
  "scan_types [] lowered material_type = material_type"
| "scan_types ((type_name, keywords) # table) lowered material_type =
     (if any_keyword keywords lowered then type_name
      else scan_types table lowered material_type)"

text \<open>
  The body of \<open>_simple_extraction\<close>. No operation of the body raises on a string (the
  two indexings are guarded by the emptiness tests), so its exception handler is never
  entered and the function is total.
\<close>

definition simple_extraction :: "pystr \<Rightarrow> py_dict" where
  "simple_extraction text =
     (case split_parts text of
        [] \<Rightarrow> create_fallback_info text
      | p0 # characteristics \<Rightarrow>
          (let product_name =
                 (if startswith (py_lower p0) fuer_prefix then py_strip (drop 4 p0) else p0);
               material_type = scan_types type_keywords (py_lower text) (cp ''other'');
               short_desc =
                 (case characteristics of
                    [] \<Rightarrow> product_name
                  | c0 # _ \<Rightarrow>
                      if int (length product_name) + 1 + int (length c0) \<le> 40
                      then product_name @ [SPACE] @ c0
                      else (let remaining_space = 40 - int (length product_name) - 1
                            in if remaining_space > 3
                               then product_name @ [SPACE] @ take (nat remaining_space) c0
                               else product_name))
           in mk_info product_name characteristics material_type (take 40 short_desc)))"

section \<open>The normalizer\<close>

text \<open>\<open>text.replace("//", " | ")\<close>: the occurrences are replaced from left to right,
  without overlap.\<close>

fun replace_slashes :: "pystr \<Rightarrow> pystr" where
  "replace_slashes (a # b # rest) =
     (if a = SLASH \<and> b = SLASH then [SPACE, PIPE, SPACE] @ replace_slashes rest
      else a # replace_slashes (b # rest))"
| "replace_slashes [a] = [a]"
| "replace_slashes [] = []"

text \<open>
  A match of the pattern \<open>\s+\|\s+\<close> at the head of a string, returning what follows
  the match. Both repetitions are greedy; a shorter first run cannot match either, since
  the code point after it would be whitespace and not the pipe.
\<close>

definition match_separator :: "pystr \<Rightarrow> pystr option" where
  "match_separator s =
     (case s of
        [] \<Rightarrow> None
      | c # cs \<Rightarrow>
          if is_space c then
            (case dropWhile is_space cs of
               [] \<Rightarrow> None
             | p # after \<Rightarrow>
                 if p = PIPE then
                   (case after of
                      [] \<Rightarrow> None
                    | a # as \<Rightarrow> if is_space a then Some (dropWhile is_space as) else None)
                 else None)
          else None)"

lemma match_separator_shorter:
  "match_separator s = Some rest \<Longrightarrow> length rest < length s"
proof -
  have drop_le: "length (dropWhile is_space xs) \<le> length xs" for xs
    by (rule length_dropWhile_le)
  assume m: "match_separator s = Some rest"
  then obtain c cs p after a as where
    s: "s = c # cs" and d: "dropWhile is_space cs = p # after" and
    af: "after = a # as" and r: "rest = dropWhile is_space as"
    by (auto simp: match_separator_def split: list.splits if_splits)
  have "length rest \<le> length as" using r drop_le by simp
  also have "length as < length (p # after)" using af by simp
  also have "length (p # after) \<le> length cs" using d drop_le [of cs] by simp
  finally show ?thesis using s by simp
qed

text \<open>\<open>re.sub(r'\s+\|\s+', ' | ', text)\<close>: the leftmost match is replaced and the
  scan goes on after it.\<close>

function sub_separators :: "pystr \<Rightarrow> pystr" where
  "sub_separators [] = []"
| "sub_separators (c # cs) =
     (case match_separator (c # cs) of
        Some rest \<Rightarrow> [SPACE, PIPE, SPACE] @ sub_separators rest
      | None \<Rightarrow> c # sub_separators cs)"
  by pat_completeness auto
termination
  by (relation "measure length") (auto dest: match_separator_shorter)

text \<open>\<open>re.sub(r'\s+', ' ', text)\<close>\<close>

function collapse_ws :: "pystr \<Rightarrow> pystr" where
  "collapse_ws [] = []"
| "collapse_ws (c # cs) =
     (if is_space c then SPACE # collapse_ws (dropWhile is_space cs)
      else c # collapse_ws cs)"
  by pat_completeness auto
termination
  by (relation "measure length") (auto simp: less_Suc_eq_le length_dropWhile_le)

definition preprocess_text :: "py_value \<Rightarrow> pystr" where
  "preprocess_text v =
     (case v of
        PStr text \<Rightarrow>
          py_strip (collapse_ws (sub_separators (replace_slashes (py_join [SPACE] (py_split text)))))
      | _ \<Rightarrow> [])"

section \<open>Operations on dynamically typed values\<close>

text \<open>A computation that may raise returns the exception on the left.\<close>

definition and_then :: "py_error + 'a \<Rightarrow> ('a \<Rightarrow> py_error + 'b) \<Rightarrow> py_error + 'b" where
  "and_then m f = (case m of Inl e \<Rightarrow> Inl e | Inr x \<Rightarrow> f x)"

text \<open>Truth value of an object, as \<open>if x:\<close> tests it.\<close>

fun py_truthy :: "py_value \<Rightarrow> bool" where
  "py_truthy PNone = False"
| "py_truthy (PBool b) = b"
| "py_truthy (PInt i) = (i \<noteq> 0)"
| "py_truthy (PFloat r) = (r \<noteq> 0)"
| "py_truthy (PStr s) = (s \<noteq> [])"
| "py_truthy (PList xs) = (xs \<noteq> [])"
| "py_truthy (PDict d) = (d \<noteq> [])"

text \<open>\<open>len(x)\<close>; a dictionary has as many items as it has keys.\<close>

fun py_len :: "py_value \<Rightarrow> py_error + nat" where
  "py_len (PStr s) = Inr (length s)"
| "py_len (PList xs) = Inr (length xs)"
| "py_len (PDict d) = Inr (length (remdups (map fst d)))"
| "py_len v = Inl TypeError"

text \<open>\<open>d[key]\<close> and \<open>d.get(key)\<close> on a dictionary.\<close>

definition py_getitem :: "py_dict \<Rightarrow> string \<Rightarrow> py_error + py_value" where
  "py_getitem d k =
     (case map_of d (cp k) of None \<Rightarrow> Inl (KeyError (Some (cp k))) | Some v \<Rightarrow> Inr v)"

definition py_get :: "py_dict \<Rightarrow> string \<Rightarrow> py_value" where
  "py_get d k = (case map_of d (cp k) of None \<Rightarrow> PNone | Some v \<Rightarrow> v)"

text \<open>\<open>d[key] = v\<close>: an existing key keeps its place.\<close>

fun py_setitem :: "py_dict \<Rightarrow> pystr \<Rightarrow> py_value \<Rightarrow> py_dict" where
  "py_setitem [] k v = [(k, v)]"
| "py_setitem ((k', v') # d) k v = (if k' = k then (k, v) # d else (k', v') # py_setitem d k v)"

text \<open>\<open>x[0]\<close>. The keys of a decoded JSON object are strings, so the integer key is
  never found in a dictionary.\<close>

fun py_first :: "py_value \<Rightarrow> py_error + py_value" where
  "py_first (PStr s) = (case s of [] \<Rightarrow> Inl IndexError | c # _ \<Rightarrow> Inr (PStr [c]))"
| "py_first (PList xs) = (case xs of [] \<Rightarrow> Inl IndexError | x # _ \<Rightarrow> Inr x)"
| "py_first (PDict d) = Inl (KeyError None)"
| "py_first v = Inl TypeError"

text \<open>\<open>x[:n]\<close> for \<open>n \<ge> 0\<close>. Slicing a dictionary raises (a \<open>TypeError\<close> up to
  Python 3.11).\<close>

fun py_slice_to :: "nat \<Rightarrow> py_value \<Rightarrow> py_error + py_value" where
  "py_slice_to n (PStr s) = Inr (PStr (take n s))"
| "py_slice_to n (PList xs) = Inr (PList (take n xs))"
| "py_slice_to n v = Inl TypeError"

text \<open>\<open>" " + x\<close>: only a string can be added to a string.\<close>

fun py_space_plus :: "py_value \<Rightarrow> py_error + pystr" where
  "py_space_plus (PStr s) = Inr (SPACE # s)"
| "py_space_plus v = Inl TypeError"

text \<open>\<open>desc += s\<close> for a string \<open>s\<close>: a string is concatenated, a list is extended
  in place by the one-character strings of \<open>s\<close>, anything else raises.\<close>

fun py_iadd :: "py_value \<Rightarrow> pystr \<Rightarrow> py_error + py_value" where
  "py_iadd (PStr d) s = Inr (PStr (d @ s))"
| "py_iadd (PList xs) s = Inr (PList (xs @ map (\<lambda>c. PStr [c]) s))"
| "py_iadd v s = Inl TypeError"

fun is_list :: "py_value \<Rightarrow> bool" where
  "is_list (PList xs) = True"
| "is_list v = False"

section \<open>The description synthesizer\<close>

text \<open>
  \<open>_create_standardized_description\<close> returns the description, and the dictionary as
  the call leaves it: when the product name is a list, \<open>desc += ...\<close> extends that list
  inside the dictionary. The three helper functions are the tail of the body (\<open>return
  desc[:40]\<close>), the two \<open>desc += " " + ...\<close> statements, and the fallback
  construction.
\<close>

definition finish_description :: "py_dict \<Rightarrow> py_value \<Rightarrow> py_error + py_value \<times> py_value" where
  "finish_description d desc =
     and_then (py_slice_to 40 desc) (\<lambda>r. Inr (r, PDict d))"

definition append_piece ::
  "py_dict \<Rightarrow> py_value \<Rightarrow> py_value \<Rightarrow> py_error + py_value \<times> py_value" where
  "append_piece d desc piece =
     and_then (py_space_plus piece) (\<lambda>s.
     and_then (py_iadd desc s) (\<lambda>desc'.
       finish_description
         (if is_list desc then py_setitem d (cp ''product_name'') desc' else d) desc'))"

definition fallback_construction :: "py_dict \<Rightarrow> py_error + py_value \<times> py_value" where
  "fallback_construction d =
     and_then (py_getitem d ''product_name'') (\<lambda>desc.
     and_then (py_getitem d ''characteristics'') (\<lambda>chars.
       if py_truthy chars then
         and_then (py_first chars) (\<lambda>char.
         and_then (py_len desc) (\<lambda>n.
         and_then (py_len char) (\<lambda>m.
           if int n + 1 + int m \<le> 40 then append_piece d desc char
           else (let space_left = 40 - int n - 1
                 in if space_left \<ge> 3
                    then and_then (py_slice_to (nat space_left) char) (append_piece d desc)
                    else finish_description d desc))))
       else finish_description d desc))"

definition create_standardized_description :: "py_value \<Rightarrow> py_error + py_value \<times> py_value" where
  "create_standardized_description info =
     (case info of
        PDict d \<Rightarrow>
          (let short = py_get d ''short_description'' in
           if py_truthy short then
             and_then (py_len short) (\<lambda>n.
               if n \<le> 40 then Inr (short, info) else fallback_construction d)
           else fallback_construction d)
      | _ \<Rightarrow> Inl AttributeError)"

section \<open>The generative path\<close>

text \<open>
  What one request to the text-generation service can do: raise a connection error, raise
  another exception, return a response without a message, or return a message whose
  content is a string or \<open>None\<close>.
\<close>

datatype chat_result =
    ChatConnectionError
  | ChatOtherError
  | ChatNoMessage
  | ChatMessage "pystr option"

text \<open>
  The library calls whose results the program does not determine: the service, which
  answers the \<open>n\<close>-th request of the run for a text (the prompt is the fixed template
  around that text); the JSON decoder, which returns the decoded value or fails; and the
  console, which gives the exception that the \<open>print\<close> statements of a row raise, if
  one does, for the three values they print: the original text, the final description and
  \<open>json.dumps\<close> of the structured information. Writing to standard output raises when
  its encoding cannot encode a character (\<open>UnicodeEncodeError\<close>). The calls of the
  logger raise nothing: the handlers of \<open>logging\<close> catch what goes wrong while a
  message is written.
\<close>

record externals =
  chat :: "nat \<Rightarrow> pystr \<Rightarrow> chat_result"
  json_loads :: "pystr \<Rightarrow> py_value option"
  console :: "pystr \<Rightarrow> py_value \<Rightarrow> py_value \<Rightarrow> py_error option"

text \<open>One row's outcome, as the dictionary appended to \<open>answer_list\<close>: the keys
  \<open>structured_info\<close> and \<open>error\<close> are each present in one kind of record only. The
  \<open>error\<close> field holds the exception whose \<open>str\<close> the code stores.\<close>

record material_record =
  original_text :: pystr
  cleaned_text :: pystr
  structured_info :: "py_value option"
  error :: "py_error option"
  final_description :: py_value

text \<open>The processor object: the result list and the three counters. \<open>requests\<close>
  counts the requests sent to the service so far; the code has no such field, it is the
  position in the service's sequence of answers.\<close>

record processor =
  answer_list :: "material_record list"
  llm_calls :: nat
  llm_errors :: nat
  llm_fallbacks :: nat
  requests :: nat

definition LBRACE :: nat where "LBRACE = 123"
definition RBRACE :: nat where "RBRACE = 125"

text \<open>\<open>s.find(c)\<close> and \<open>s.rfind(c)\<close>: the first and the last index of \<open>c\<close>, or -1.\<close>

fun py_find :: "nat \<Rightarrow> pystr \<Rightarrow> int" where
  "py_find c [] = - 1"
| "py_find c (x # xs) =
     (if x = c then 0 else (let r = py_find c xs in if r < 0 then - 1 else r + 1))"

definition py_rfind :: "nat \<Rightarrow> pystr \<Rightarrow> int" where
  "py_rfind c s = (let r = py_find c (rev s) in if r < 0 then - 1 else int (length s) - 1 - r)"

text \<open>\<open>_parse_llm_response\<close>: both handlers log and re-raise. A content of \<open>None\<close>
  has no \<open>strip\<close>.\<close>

definition parse_llm_response ::
  "(pystr \<Rightarrow> py_value option) \<Rightarrow> pystr option \<Rightarrow> py_error + py_value" where
  "parse_llm_response loads content =
     (case content of
        None \<Rightarrow> Inl AttributeError
      | Some c \<Rightarrow>
          (let stripped = py_strip c;
               start = py_find LBRACE stripped;
               end' = py_rfind RBRACE stripped + 1
           in if start < 0 \<or> end' \<le> 0 then Inl ValueError
              else (case loads (drop (nat start) (take (nat end') stripped)) of
                      None \<Rightarrow> Inl JSONDecodeError
                    | Some v \<Rightarrow> Inr v)))"

definition max_retries :: nat where "max_retries = 3"

text \<open>
  The retry loop of \<open>_call_llm_for_extraction\<close> over the attempts still to make. Each
  attempt sends one request. A response with a message increments \<open>llm_calls\<close> before
  its content is parsed; every exception of an attempt is caught and the loop goes on
  (the two handlers differ in how long they sleep only). When the attempts are used up,
  \<open>llm_errors\<close> is incremented and \<open>RuntimeError\<close> is raised.
\<close>

fun llm_attempts ::
  "externals \<Rightarrow> pystr \<Rightarrow> nat list \<Rightarrow> processor \<Rightarrow> (py_error + py_value) \<times> processor" where
  "llm_attempts ex text [] st = (Inl RuntimeError, st\<lparr>llm_errors := llm_errors st + 1\<rparr>)"
| "llm_attempts ex text (attempt # later) st =
     (let st1 = st\<lparr>requests := requests st + 1\<rparr> in
      case chat ex (requests st) text of
        ChatConnectionError \<Rightarrow> llm_attempts ex text later st1
      | ChatOtherError \<Rightarrow> llm_attempts ex text later st1
      | ChatNoMessage \<Rightarrow> llm_attempts ex text later st1
      | ChatMessage content \<Rightarrow>
          (let st2 = st1\<lparr>llm_calls := llm_calls st1 + 1\<rparr> in
           case parse_llm_response (json_loads ex) content of
             Inr v \<Rightarrow> (Inr v, st2)
           | Inl e \<Rightarrow> llm_attempts ex text later st2))"

definition call_llm_for_extraction ::
  "externals \<Rightarrow> pystr \<Rightarrow> processor \<Rightarrow> (py_error + py_value) \<times> processor" where
  "call_llm_for_extraction ex text st = llm_attempts ex text [0..<max_retries] st"

section \<open>The orchestrator\<close>

text \<open>The test \<open>len(result["characteristics"]) == 0 or
  len(result["product_name"].split()) == 1\<close>; only a string has \<open>split\<close>.\<close>

definition looks_too_basic :: "py_dict \<Rightarrow> py_error + bool" where
  "looks_too_basic result =
     and_then (py_getitem result ''characteristics'') (\<lambda>chars.
     and_then (py_len chars) (\<lambda>n.
       if n = 0 then Inr True
       else and_then (py_getitem result ''product_name'') (\<lambda>name.
              case name of
                PStr s \<Rightarrow> Inr (length (py_split s) = 1)
              | _ \<Rightarrow> Inl AttributeError)))"

definition use_fallback :: "pystr \<Rightarrow> processor \<Rightarrow> py_value \<times> processor" where
  "use_fallback text st =
     (PDict (create_fallback_info text), st\<lparr>llm_fallbacks := llm_fallbacks st + 1\<rparr>)"

definition extract_with_fallback ::
  "externals \<Rightarrow> pystr \<Rightarrow> processor \<Rightarrow> py_value \<times> processor" where
  "extract_with_fallback ex text st =
     (let result = simple_extraction text in
      case looks_too_basic result of
        Inl e \<Rightarrow> use_fallback text st
      | Inr True \<Rightarrow>
          (case call_llm_for_extraction ex text st of
             (Inr v, st') \<Rightarrow> (v, st')
           | (Inl e, st') \<Rightarrow> use_fallback text st')
      | Inr False \<Rightarrow> (PDict result, st))"

section \<open>The batch runner\<close>

text \<open>A row of the table is the list of its cells, each given by what \<open>str\<close> returns
  for it.\<close>

type_synonym row = "pystr list"

definition row_text :: "row \<Rightarrow> pystr" where
  "row_text r = (if length r > 3 then r ! 3 else [])"

definition ERROR :: py_value where
  "ERROR = PStr (cp ''ERROR'')"

text \<open>
  The body of the \<open>try\<close> block for one row. It returns the exception that leaves the
  block, if one does, and the processor as it is at that moment. A row whose cleaned text
  is empty is skipped. The record of the row is appended before the results are printed,
  so an exception of a \<open>print\<close> statement leaves the block with the record already in
  the list.
\<close>

definition row_body :: "externals \<Rightarrow> row \<Rightarrow> processor \<Rightarrow> py_error option \<times> processor" where
  "row_body ex r st =
     (let text = row_text r;
          cleaned = preprocess_text (PStr text)
      in if cleaned = [] then (None, st)
         else (case extract_with_fallback ex cleaned st of
                 (product_info, st') \<Rightarrow>
                   (case create_standardized_description product_info of
                      Inl e \<Rightarrow> (Some e, st')
                    | Inr (final, info') \<Rightarrow>
                        (console ex text final info',
                         st'\<lparr>answer_list := answer_list st' @
                           [\<lparr>original_text = text, cleaned_text = cleaned,
                             structured_info = Some info', error = None,
                             final_description = final\<rparr>]\<rparr>))))"

text \<open>The \<open>except Exception\<close> handler of the row.\<close>

definition error_record :: "row \<Rightarrow> py_error \<Rightarrow> material_record" where
  "error_record r e =
     \<lparr>original_text = row_text r, cleaned_text = preprocess_text (PStr (row_text r)),
      structured_info = None, error = Some e, final_description = ERROR\<rparr>"

definition process_row :: "externals \<Rightarrow> row \<Rightarrow> processor \<Rightarrow> processor" where
  "process_row ex r st =
     (case row_body ex r st of
        (None, st') \<Rightarrow> st'
      | (Some e, st') \<Rightarrow> st'\<lparr>answer_list := answer_list st' @ [error_record r e]\<rparr>)"

fun process_materials :: "externals \<Rightarrow> row list \<Rightarrow> processor \<Rightarrow> processor" where
  "process_materials ex [] st = st"
| "process_materials ex (r # rows) st = process_materials ex rows (process_row ex r st)"

definition new_processor :: processor where
  "new_processor = \<lparr>answer_list = [], llm_calls = 0, llm_errors = 0, llm_fallbacks = 0, requests = 0\<rparr>"

section \<open>Observations used in the statements\<close>

text \<open>The product name and the characteristics of a result dictionary.\<close>

definition product_name_of :: "py_dict \<Rightarrow> pystr" where
  "product_name_of d = (case py_get d ''product_name'' of PStr s \<Rightarrow> s | _ \<Rightarrow> [])"

definition characteristics_of :: "py_dict \<Rightarrow> py_value list" where
  "characteristics_of d = (case py_get d ''characteristics'' of PList xs \<Rightarrow> xs | _ \<Rightarrow> [])"

text \<open>A string with no whitespace at either end.\<close>

definition trimmed :: "pystr \<Rightarrow> bool" where
  "trimmed s = (s = [] \<or> (\<not> is_space (hd s) \<and> \<not> is_space (last s)))"

text \<open>Whether the \<open>n\<close>-th request got a response with a message, and the value the
  attempt that sends it returns, if it returns one.\<close>

definition got_message :: "externals \<Rightarrow> pystr \<Rightarrow> nat \<Rightarrow> bool" where
  "got_message ex text n = (case chat ex n text of ChatMessage c \<Rightarrow> True | _ \<Rightarrow> False)"

definition attempt_result :: "externals \<Rightarrow> pystr \<Rightarrow> nat \<Rightarrow> py_value option" where
  "attempt_result ex text n =
     (case chat ex n text of
        ChatMessage c \<Rightarrow>
          (case parse_llm_response (json_loads ex) c of Inr v \<Rightarrow> Some v | Inl e \<Rightarrow> None)
      | _ \<Rightarrow> None)"



text \<open>A string without two slashes in a row, and a string in which every whitespace
  character is a single space between two other characters or at an end.\<close>

definition unslashed :: "pystr \<Rightarrow> bool" where
  "unslashed s = successively (\<lambda>a b. \<not> (a = SLASH \<and> b = SLASH)) s"

definition spaced :: "pystr \<Rightarrow> bool" where
  "spaced s = (successively (\<lambda>a b. \<not> (is_space a \<and> is_space b)) s \<and>
               list_all (\<lambda>c. is_space c \<longrightarrow> c = SPACE) s)"

section \<open>Example inputs\<close>

definition apic_text :: pystr where
  "apic_text =
     [102, 252] @ cp ''r APIC Wasserfilter FMA 9000 | Ref: 9000/CPF01/230/VH | Pos. 48''"

definition schuetz_text :: pystr where
  "schuetz_text =
     cp ''Siemens Sch'' @ [252] @ cp ''tz | Spulensp. 230V, 50HZ/AC | Leistung 45,0 KW/400V''"

text \<open>A text made of the separator alone.\<close>

definition bar_text :: pystr where "bar_text = [PIPE]"

text \<open>A text with a one-word name, a reply of the service to it whose short description
  has 43 characters, and the object that reply decodes to.\<close>

definition quoted :: "pystr \<Rightarrow> pystr" where
  "quoted s = [34] @ s @ [34]"

definition pump_text :: pystr where
  "pump_text = cp ''Kreiselpumpe | DN 50''"

definition pump_description :: pystr where
  "pump_description = cp ''Kreiselpumpe DN 50 fuer Wasser und Abwasser''"

definition pump_info :: py_dict where
  "pump_info =
     [(cp ''product_name'', PStr (cp ''Kreiselpumpe'')),
      (cp ''characteristics'', PList [PStr (cp ''DN 50'')]),
      (cp ''material_type'', PStr (cp ''mechanical'')),
      (cp ''unit_of_measure'', PStr (cp ''ST'')),
      (cp ''categorization'', PDict []),
      (cp ''short_description'', PStr pump_description)]"

definition pump_reply :: pystr where
  "pump_reply =
     cp ''Here is the result: {'' @
     quoted (cp ''product_name'') @ cp '': '' @ quoted (cp ''Kreiselpumpe'') @ cp '', '' @
     quoted (cp ''characteristics'') @ cp '': ['' @ quoted (cp ''DN 50'') @ cp ''], '' @
     quoted (cp ''material_type'') @ cp '': '' @ quoted (cp ''mechanical'') @ cp '', '' @
     quoted (cp ''unit_of_measure'') @ cp '': '' @ quoted (cp ''ST'') @ cp '', '' @
     quoted (cp ''categorization'') @ cp '': {}, '' @
     quoted (cp ''short_description'') @ cp '': '' @ quoted pump_description @ cp ''} ''"

definition pump_json :: pystr where
  "pump_json = drop 20 (take (length pump_reply - 1) pump_reply)"

text \<open>Four services: one that never connects, one that connects at the third request,
  one whose replies hold no JSON, and one that replies with the empty object.\<close>

definition offline_service :: externals where
  "offline_service =
     \<lparr>chat = (\<lambda>n text. ChatConnectionError), json_loads = (\<lambda>s. None),
      console = (\<lambda>text final info. None)\<rparr>"

definition recovering_service :: externals where
  "recovering_service =
     \<lparr>chat = (\<lambda>n text. if n < 2 then ChatConnectionError else ChatMessage (Some pump_reply)),
      json_loads = (\<lambda>s. if s = pump_json then Some (PDict pump_info) else None),
      console = (\<lambda>text final info. None)\<rparr>"

definition garbled_service :: externals where
  "garbled_service =
     \<lparr>chat = (\<lambda>n text. ChatMessage (Some (cp ''I cannot help with that.''))),
      json_loads = (\<lambda>s. None),
      console = (\<lambda>text final info. None)\<rparr>"

definition empty_object_service :: externals where
  "empty_object_service =
     \<lparr>chat = (\<lambda>n text. ChatMessage (Some (cp ''{}''))),
      json_loads = (\<lambda>s. if s = cp ''{}'' then Some (PDict []) else None),
      console = (\<lambda>text final info. None)\<rparr>"

text \<open>
  A console whose encoding is UTF-8: it cannot write a lone surrogate (a code point from
  55296 to 57343), which \<open>json.dumps\<close> with \<open>ensure_ascii=False\<close> leaves in its
  output as it is. A service whose reply decodes to an object holding such a code point,
  on that console.
\<close>

definition is_surrogate :: "nat \<Rightarrow> bool" where
  "is_surrogate c = (55296 \<le> c \<and> c \<le> 57343)"

fun has_surrogate :: "py_value \<Rightarrow> bool" where
  "has_surrogate (PStr s) = list_ex is_surrogate s"
| "has_surrogate (PList xs) = list_ex has_surrogate xs"
| "has_surrogate (PDict d) =
     list_ex (\<lambda>kv. list_ex is_surrogate (fst kv) \<or> has_surrogate (snd kv)) d"
| "has_surrogate v = False"

definition utf8_console :: "pystr \<Rightarrow> py_value \<Rightarrow> py_value \<Rightarrow> py_error option" where
  "utf8_console text final info =
     (if list_ex is_surrogate text \<or> (case final of PStr s \<Rightarrow> list_ex is_surrogate s | _ \<Rightarrow> False)
         \<or> has_surrogate info
      then Some UnicodeEncodeError else None)"

definition surrogate_info :: py_dict where
  "surrogate_info =
     [(cp ''short_description'', PStr (cp ''Pumpe'')), (cp ''x'', PStr [55296])]"

definition surrogate_reply :: pystr where
  "surrogate_reply =
     cp ''{'' @ quoted (cp ''short_description'') @ cp '': '' @ quoted (cp ''Pumpe'') @ cp '', '' @
     quoted (cp ''x'') @ cp '': '' @ quoted ([92] @ cp ''ud800'') @ cp ''}''"

definition surrogate_service :: externals where
  "surrogate_service =
     \<lparr>chat = (\<lambda>n text. ChatMessage (Some surrogate_reply)),
      json_loads = (\<lambda>s. if s = surrogate_reply then Some (PDict surrogate_info) else None),
      console = utf8_console\<rparr>"

text \<open>Two rows of the table; the text is the fourth cell.\<close>

definition pump_row :: row where
  "pump_row = [cp ''4711'', cp ''ERSA'', cp ''Pumpe'', pump_text]"

definition apic_row :: row where
  "apic_row = [cp ''4712'', cp ''ERSA'', cp ''Filter'', apic_text]"

text \<open>A text whose name has 36 characters and whose first characteristic does not fit.\<close>

definition cylinder_name :: pystr where
  "cylinder_name = cp ''Hydraulikzylinder doppeltwirkend 100''"

definition cylinder_text :: pystr where
  "cylinder_text = cylinder_name @ cp '' | Hub 500 mm''"

text \<open>A text whose prefix is written in capitals (capital U with diaeresis is code point
  220).\<close>

definition shouted_text :: pystr where
  "shouted_text = cp ''F'' @ [220] @ cp ''R Pumpe XY | DN 50''"

section \<open>Evaluation on concrete inputs\<close>

lemmas string_eval =
  cp_def PIPE_def SPACE_def SLASH_def py_strip_def is_space_def py_lower_def lower_cp_def

lemmas heuristic_eval =
  split_parts_def simple_extraction_def create_fallback_info_def fuer_prefix_def
  type_keywords_def any_keyword_def mk_info_def py_getitem_def py_get_def

lemmas normalizer_eval = preprocess_text_def py_split_def match_separator_def

lemma getitem_mk_info:
  "py_getitem (mk_info n cs m s) ''product_name'' = Inr (PStr n)"
  "py_getitem (mk_info n cs m s) ''characteristics'' = Inr (PList (map PStr cs))"
  "py_getitem (mk_info n cs m s) ''material_type'' = Inr (PStr m)"
  "py_getitem (mk_info n cs m s) ''short_description'' = Inr (PStr s)"
  "py_get (mk_info n cs m s) ''short_description'' = PStr s"
  by (simp_all add: mk_info_def py_getitem_def py_get_def cp_def)

section \<open>The heuristic extractor on the documented examples\<close>

text \<open>
  C7. The text \<open>apic_text\<close> (\<open>fuer APIC Wasserfilter FMA 9000 | Ref: 9000/CPF01/230/VH | Pos. 48\<close>, with the u with diaeresis written as code point 252) is
  already normalized, and on it the heuristic extractor returns the product name
  \<open>APIC Wasserfilter FMA 9000\<close> (the prefix stripped), the characteristics
  \<open>Ref: 9000/CPF01/230/VH\<close> and \<open>Pos. 48\<close> in source order, and the material type
  \<open>filter\<close>.
\<close>

theorem simple_extraction_apic:
  "preprocess_text (PStr apic_text) = apic_text \<and>
   py_getitem (simple_extraction apic_text) ''product_name'' =
     Inr (PStr (cp ''APIC Wasserfilter FMA 9000'')) \<and>
   py_getitem (simple_extraction apic_text) ''characteristics'' =
     Inr (PList [PStr (cp ''Ref: 9000/CPF01/230/VH''), PStr (cp ''Pos. 48'')]) \<and>
   py_getitem (simple_extraction apic_text) ''material_type'' = Inr (PStr (cp ''filter''))"
proof -
  have "preprocess_text (PStr apic_text) = apic_text"
    by (simp add: apic_text_def string_eval normalizer_eval)
  moreover have
    "simple_extraction apic_text =
       mk_info (cp ''APIC Wasserfilter FMA 9000'') [cp ''Ref: 9000/CPF01/230/VH'', cp ''Pos. 48'']
         (cp ''filter'') (cp ''APIC Wasserfilter FMA 9000 Ref: 9000/CPF'')"
    by (simp add: apic_text_def string_eval heuristic_eval)
  ultimately show ?thesis by (simp add: getitem_mk_info)
qed

section \<open>Classification of the material type\<close>

lemma dropWhile_space_all:
  "(\<forall>c \<in> set (dropWhile is_space s). is_space c) \<longleftrightarrow> (\<forall>c \<in> set s. is_space c)"
proof
  assume a: "\<forall>c \<in> set (dropWhile is_space s). is_space c"
  have "dropWhile is_space s = []"
  proof (rule ccontr)
    assume ne: "dropWhile is_space s \<noteq> []"
    then have "\<not> is_space (hd (dropWhile is_space s))" by (rule hd_dropWhile)
    moreover have "hd (dropWhile is_space s) \<in> set (dropWhile is_space s)" using ne by simp
    ultimately show False using a by blast
  qed
  then show "\<forall>c \<in> set s. is_space c" by (simp add: dropWhile_eq_Nil_conv)
next
  assume "\<forall>c \<in> set s. is_space c"
  then show "\<forall>c \<in> set (dropWhile is_space s). is_space c" by (blast dest: set_dropWhileD)
qed

lemma py_strip_empty_iff: "py_strip s = [] \<longleftrightarrow> (\<forall>c \<in> set s. is_space c)"
  by (simp add: py_strip_def dropWhile_eq_Nil_conv dropWhile_space_all)

lemma py_split_on_nonempty: "py_split_on d s \<noteq> []"
  by (induction s) (auto split: list.splits)

lemma py_split_on_covers:
  "c \<in> set s \<Longrightarrow> c = d \<or> (\<exists>p \<in> set (py_split_on d s). c \<in> set p)"
proof (induction s)
  case Nil then show ?case by simp
next
  case (Cons x xs)
  obtain p ps where ps: "py_split_on d xs = p # ps"
    using py_split_on_nonempty [of d xs] by (cases "py_split_on d xs") auto
  show ?case
  proof (cases "x = d")
    case True
    with Cons ps show ?thesis by auto
  next
    case False
    with Cons ps show ?thesis by auto
  qed
qed

lemma split_parts_empty_chars:
  assumes "split_parts text = []" and "c \<in> set text"
  shows "c = PIPE \<or> is_space c"
proof (rule ccontr)
  assume n: "\<not> (c = PIPE \<or> is_space c)"
  then obtain p where p: "p \<in> set (py_split_on PIPE text)" "c \<in> set p"
    using py_split_on_covers [OF assms(2), of PIPE] by auto
  then have "py_strip p \<noteq> []" using n by (auto simp: py_strip_empty_iff)
  with p(1) have "p \<in> set (filter (\<lambda>p. py_strip p \<noteq> []) (py_split_on PIPE text))" by simp
  with assms(1) show False by (simp add: split_parts_def)
qed

lemma startswith_set: "startswith s kw \<Longrightarrow> set kw \<subseteq> set s"
  by (induction s kw rule: startswith.induct) auto

lemma py_in_set: "py_in kw s \<Longrightarrow> set kw \<subseteq> set s"
proof (induction s)
  case Nil then show ?case by simp
next
  case (Cons a s)
  from Cons.prems have "startswith (a # s) kw \<or> py_in kw s" by simp
  then show ?case
  proof
    assume "startswith (a # s) kw" then show ?thesis by (rule startswith_set)
  next
    assume "py_in kw s" then show ?thesis using Cons.IH by auto
  qed
qed

lemma lower_cp_blank: "c = PIPE \<or> is_space c \<Longrightarrow> lower_cp c = [c]"
  by (auto simp: lower_cp_def PIPE_def is_space_def)

lemma py_lower_blank: "\<forall>c \<in> set s. c = PIPE \<or> is_space c \<Longrightarrow> py_lower s = s"
  by (induction s) (auto simp: py_lower_def lower_cp_blank)

lemma blank_no_keyword:
  assumes "split_parts text = []"
  shows "scan_types type_keywords (py_lower text) d = d"
proof -
  have blank: "\<forall>c \<in> set text. c = PIPE \<or> is_space c"
    using split_parts_empty_chars [OF assms] by blast
  then have low: "py_lower text = text" by (rule py_lower_blank)
  have "\<not> py_in kw text" if "kw \<noteq> []" "\<not> (hd kw = PIPE \<or> is_space (hd kw))" for kw
  proof
    assume "py_in kw text"
    then have "hd kw \<in> set text" using that(1) py_in_set [of kw "text"] by (cases kw) auto
    with blank that(2) show False by blast
  qed
  then show ?thesis
    by (simp add: low type_keywords_def any_keyword_def cp_def PIPE_def is_space_def)
qed

lemma scan_first: "i < length table \<Longrightarrow> any_keyword (snd (table ! i)) lowered \<Longrightarrow>
   (\<forall>j<i. \<not> any_keyword (snd (table ! j)) lowered) \<Longrightarrow> scan_types table lowered d = fst (table ! i)"
proof (induction table arbitrary: i)
  case Nil then show ?case by simp
next
  case (Cons e table)
  obtain ty kws where e: "e = (ty, kws)" by (cases e)
  show ?case
  proof (cases i)
    case 0
    with Cons.prems e show ?thesis by simp
  next
    case (Suc k)
    have "\<not> any_keyword kws lowered" using Cons.prems(3) Suc e by fastforce
    moreover have "scan_types table lowered d = fst (table ! k)"
      using Cons.IH [of k] Cons.prems Suc by fastforce
    ultimately show ?thesis using e Suc by simp
  qed
qed

lemma scan_none: "(\<forall>e \<in> set table. \<not> any_keyword (snd e) lowered) \<Longrightarrow> scan_types table lowered d = d"
  by (induction table) auto

text \<open>
  C6. The material type of the heuristic result is what the scan of the keyword table over
  the lowercased full text gives. The table lists filter, electrical, mechanical, seal in
  this order; the first entry with a matching keyword gives the type, and when no entry
  matches the type stays \<open>other\<close>. On the text
  \<open>schuetz_text\<close> (\<open>Siemens Schuetz | Spulensp. 230V, 50HZ/AC | Leistung 45,0 KW/400V\<close>, with the u with diaeresis written as code point 252) the type is
  \<open>electrical\<close>.
\<close>

theorem material_type_first_match:
  "py_getitem (simple_extraction text) ''material_type'' =
     Inr (PStr (scan_types type_keywords (py_lower text) (cp ''other''))) \<and>
   map fst type_keywords = [cp ''filter'', cp ''electrical'', cp ''mechanical'', cp ''seal''] \<and>
   (\<forall>i < length type_keywords.
      any_keyword (snd (type_keywords ! i)) lowered \<and>
      (\<forall>j < i. \<not> any_keyword (snd (type_keywords ! j)) lowered) \<longrightarrow>
      scan_types type_keywords lowered (cp ''other'') = fst (type_keywords ! i)) \<and>
   ((\<forall>e \<in> set type_keywords. \<not> any_keyword (snd e) lowered) \<longrightarrow>
      scan_types type_keywords lowered (cp ''other'') = cp ''other'') \<and>
   py_getitem (simple_extraction schuetz_text) ''material_type'' = Inr (PStr (cp ''electrical''))"
proof -
  have general:
    "py_getitem (simple_extraction text) ''material_type'' =
       Inr (PStr (scan_types type_keywords (py_lower text) (cp ''other'')))"
  proof (cases "split_parts text")
    case Nil
    then show ?thesis
      by (simp add: simple_extraction_def create_fallback_info_def getitem_mk_info
          blank_no_keyword)
  next
    case (Cons p0 characteristics)
    then show ?thesis
      by (simp add: simple_extraction_def Let_def getitem_mk_info)
  qed
  have order:
    "map fst type_keywords = [cp ''filter'', cp ''electrical'', cp ''mechanical'', cp ''seal'']"
    by (simp add: type_keywords_def)
  have example:
    "py_getitem (simple_extraction schuetz_text) ''material_type'' = Inr (PStr (cp ''electrical''))"
    unfolding general by (simp add: schuetz_text_def string_eval heuristic_eval)
  show ?thesis
    using general order example scan_first [of _ type_keywords lowered] 
      scan_none [of type_keywords lowered]
    by blast
qed

theorem material_type_first_match_witness:
  "1 < length type_keywords \<and>
   any_keyword (snd (type_keywords ! 1)) (py_lower schuetz_text) \<and>
   \<not> any_keyword (snd (type_keywords ! 0)) (py_lower schuetz_text) \<and>
   scan_types type_keywords (py_lower schuetz_text) (cp ''other'') = fst (type_keywords ! 1) \<and>
   fst (type_keywords ! 1) = cp ''electrical''"
proof -
  have len: "1 < length type_keywords" by (simp add: type_keywords_def)
  have hit: "any_keyword (snd (type_keywords ! 1)) (py_lower schuetz_text)"
    by (simp add: schuetz_text_def string_eval type_keywords_def any_keyword_def)
  have miss: "\<not> any_keyword (snd (type_keywords ! 0)) (py_lower schuetz_text)"
    by (simp add: schuetz_text_def string_eval type_keywords_def any_keyword_def)
  have name: "fst (type_keywords ! 1) = cp ''electrical''" by (simp add: type_keywords_def)
  from miss have before: "\<forall>j < 1. \<not> any_keyword (snd (type_keywords ! j)) (py_lower schuetz_text)"
    by simp
  from material_type_first_match [of schuetz_text "py_lower schuetz_text"] len hit before
  have "scan_types type_keywords (py_lower schuetz_text) (cp ''other'') = fst (type_keywords ! 1)"
    by blast
  with len hit miss name show ?thesis by simp
qed

section \<open>The retry loop\<close>

lemma llm_attempts_requests:
  "requests (snd (llm_attempts ex t as st)) \<le> requests st + length as \<and>
   (as \<noteq> [] \<longrightarrow> requests st < requests (snd (llm_attempts ex t as st)))"
proof (induction as arbitrary: st)
  case Nil
  then show ?case by simp
next
  case (Cons a as)
  have step: "requests (snd (llm_attempts ex t as st')) \<le> requests st' + length as \<and>
        requests st' \<le> requests (snd (llm_attempts ex t as st'))" for st'
    using Cons.IH [of st'] by (cases as) auto
  show ?case
    using step [of "st\<lparr>requests := requests st + 1\<rparr>"]
          step [of "st\<lparr>requests := requests st + 1, llm_calls := llm_calls st + 1\<rparr>"]
    by (auto simp: Let_def split: chat_result.splits sum.splits)
qed

lemma llm_attempts_keeps:
  "llm_fallbacks (snd (llm_attempts ex t as st)) = llm_fallbacks st \<and>
   answer_list (snd (llm_attempts ex t as st)) = answer_list st"
  by (induction as arbitrary: st) (auto simp: Let_def split: chat_result.splits sum.splits)

lemma llm_attempts_mono: "requests st \<le> requests (snd (llm_attempts ex t as st))"
  using llm_attempts_requests [of ex t as st] by (cases as) auto

lemma llm_attempts_step:
  "llm_attempts ex t (a # as) st =
     (case attempt_result ex t (requests st) of
        Some v \<Rightarrow> (Inr v, st\<lparr>requests := requests st + 1, llm_calls := llm_calls st + 1\<rparr>)
      | None \<Rightarrow>
          llm_attempts ex t as
            (if got_message ex t (requests st)
             then st\<lparr>requests := requests st + 1, llm_calls := llm_calls st + 1\<rparr>
             else st\<lparr>requests := requests st + 1\<rparr>))"
  by (simp add: attempt_result_def got_message_def Let_def split: chat_result.splits sum.splits)

declare llm_attempts.simps(2) [simp del]

lemma attempt_result_message: "attempt_result ex t n = Some v \<Longrightarrow> got_message ex t n"
  by (auto simp: attempt_result_def got_message_def split: chat_result.splits)

lemma llm_attempts_calls:
  "llm_calls (snd (llm_attempts ex t as st)) =
     llm_calls st +
     length (filter (got_message ex t) [requests st ..< requests (snd (llm_attempts ex t as st))])"
proof (induction as arbitrary: st)
  case Nil
  then show ?case by simp
next
  case (Cons a as)
  show ?case
  proof (cases "attempt_result ex t (requests st)")
    case (Some v)
    then show ?thesis
      by (simp add: llm_attempts_step attempt_result_message)
  next
    case None
    define st1 where "st1 = (if got_message ex t (requests st)
             then st\<lparr>requests := requests st + 1, llm_calls := llm_calls st + 1\<rparr>
             else st\<lparr>requests := requests st + 1\<rparr>)"
    have eq: "llm_attempts ex t (a # as) st = llm_attempts ex t as st1"
      by (simp add: llm_attempts_step None st1_def)
    have r1: "requests st1 = requests st + 1" by (simp add: st1_def)
    have "requests st1 \<le> requests (snd (llm_attempts ex t as st1))"
      by (rule llm_attempts_mono)
    then have "[requests st ..< requests (snd (llm_attempts ex t as st1))] =
        requests st # [requests st1 ..< requests (snd (llm_attempts ex t as st1))]"
      using r1 by (simp add: upt_conv_Cons)
    then show ?thesis
      using Cons.IH [of st1] by (simp add: eq) (simp add: st1_def)
  qed
qed

lemma llm_attempts_outcome:
  "(case llm_attempts ex t atts st of
      (Inr v, st') \<Rightarrow>
         llm_errors st' = llm_errors st \<and> requests st < requests st' \<and>
         attempt_result ex t (requests st' - 1) = Some v \<and>
         (\<forall>n. requests st \<le> n \<and> n < requests st' - 1 \<longrightarrow> attempt_result ex t n = None)
    | (Inl e, st') \<Rightarrow>
         e = RuntimeError \<and> llm_errors st' = llm_errors st + 1 \<and>
         requests st' = requests st + length atts \<and>
         (\<forall>n. requests st \<le> n \<and> n < requests st' \<longrightarrow> attempt_result ex t n = None))"
proof (induction atts arbitrary: st)
  case Nil
  then show ?case by auto
next
  case (Cons a atts)
  show ?case
  proof (cases "attempt_result ex t (requests st)")
    case (Some v)
    then show ?thesis by (auto simp: llm_attempts_step)
  next
    case None
    define st1 where "st1 = (if got_message ex t (requests st)
             then st\<lparr>requests := requests st + 1, llm_calls := llm_calls st + 1\<rparr>
             else st\<lparr>requests := requests st + 1\<rparr>)"
    have eq: "llm_attempts ex t (a # atts) st = llm_attempts ex t atts st1"
      by (simp add: llm_attempts_step None st1_def)
    have r1: "requests st1 = requests st + 1" and e1: "llm_errors st1 = llm_errors st"
      by (simp_all add: st1_def)
    have cover: "attempt_result ex t n = None"
      if "requests st \<le> n" and "requests st < n \<Longrightarrow> attempt_result ex t n = None" for n
      using that None by (cases "n = requests st") auto
    obtain r st' where res: "llm_attempts ex t atts st1 = (r, st')" by (cases "llm_attempts ex t atts st1")
    show ?thesis
    proof (cases r)
      case (Inl e)
      with Cons.IH [of st1] res r1 e1 show ?thesis
        by (auto simp: eq Suc_le_eq intro: cover)
    next
      case (Inr v)
      with Cons.IH [of st1] res r1 e1 show ?thesis
        by (auto simp: eq Suc_le_eq intro: cover)
    qed
  qed
qed

lemma call_llm_two_refusals:
  assumes "chat ex (requests st) text = ChatConnectionError"
    and "chat ex (requests st + 1) text = ChatConnectionError"
    and "attempt_result ex text (requests st + 2) = Some v"
  shows "call_llm_for_extraction ex text st =
           (Inr v, st\<lparr>requests := requests st + 3, llm_calls := llm_calls st + 1\<rparr>)"
  using assms
  by (simp add: call_llm_for_extraction_def max_retries_def upt_rec llm_attempts_step
      attempt_result_def got_message_def)

section \<open>The escalation rule\<close>

lemma observe_mk_info:
  "product_name_of (mk_info n cs m s) = n"
  "characteristics_of (mk_info n cs m s) = map PStr cs"
  by (simp_all add: product_name_of_def characteristics_of_def mk_info_def py_get_def cp_def)

lemma looks_too_basic_mk_info:
  "looks_too_basic (mk_info n cs m s) = Inr (cs = [] \<or> length (py_split n) = 1)"
  by (simp add: looks_too_basic_def and_then_def getitem_mk_info)

lemma simple_extraction_is_info:
  "\<exists>n cs m s. simple_extraction text = mk_info n cs m s"
  by (simp add: simple_extraction_def create_fallback_info_def Let_def split: list.splits) blast

lemma extract_with_fallback_cases:
  "extract_with_fallback ex text st =
     (if characteristics_of (simple_extraction text) = [] \<or>
         length (py_split (product_name_of (simple_extraction text))) = 1
      then (case call_llm_for_extraction ex text st of
              (Inr v, st') \<Rightarrow> (v, st')
            | (Inl e, st') \<Rightarrow> use_fallback text st')
      else (PDict (simple_extraction text), st))"
proof -
  obtain n cs m s where i: "simple_extraction text = mk_info n cs m s"
    using simple_extraction_is_info by blast
  show ?thesis
    by (simp add: extract_with_fallback_def i looks_too_basic_mk_info observe_mk_info)
qed

lemma call_llm_requests:
  "requests st < requests (snd (call_llm_for_extraction ex text st))"
  using llm_attempts_requests [of ex "text" "[0..<max_retries]" st]
  by (simp add: call_llm_for_extraction_def max_retries_def)

lemma escalation_iff:
  "requests st < requests (snd (extract_with_fallback ex text st)) \<longleftrightarrow>
     (characteristics_of (simple_extraction text) = [] \<or>
      length (py_split (product_name_of (simple_extraction text))) = 1)"
  using call_llm_requests [of st ex "text"]
  by (auto simp: extract_with_fallback_cases use_fallback_def split: prod.splits sum.splits)

lemma fallback_after_failure:
  assumes "call_llm_for_extraction ex text st = (Inl e, st')"
    and "characteristics_of (simple_extraction text) = [] \<or>
         length (py_split (product_name_of (simple_extraction text))) = 1"
  shows "extract_with_fallback ex text st =
           (PDict (create_fallback_info text), st'\<lparr>llm_fallbacks := llm_fallbacks st + 1\<rparr>)"
proof -
  have "llm_fallbacks st' = llm_fallbacks st"
    using assms(1) llm_attempts_keeps [of ex "text" "[0..<max_retries]" st]
    by (simp add: call_llm_for_extraction_def)
  then show ?thesis
    using assms by (simp add: extract_with_fallback_cases use_fallback_def)
qed

lemma trimmed_py_strip: "trimmed (py_strip s)"
proof (cases "py_strip s = []")
  case True
  then show ?thesis by (simp add: trimmed_def)
next
  case False
  define x where "x = dropWhile is_space s"
  define y where "y = dropWhile is_space (rev x)"
  have s: "py_strip s = rev y" by (simp add: py_strip_def x_def y_def)
  with False have y: "y \<noteq> []" by simp
  then have x: "x \<noteq> []" by (auto simp: y_def)
  have "\<not> is_space (hd y)" using y unfolding y_def by (rule hd_dropWhile)
  then have l: "\<not> is_space (last (py_strip s))" using y by (simp add: s last_rev)
  have "\<exists>ps. rev x = ps @ y"
    unfolding y_def by (metis takeWhile_dropWhile_id)
  then have "last y = last (rev x)" using y by auto
  then have "last y = hd x" using x by (simp add: last_rev)
  moreover have "\<not> is_space (hd x)" using x unfolding x_def by (rule hd_dropWhile)
  ultimately have "\<not> is_space (hd (py_strip s))" using y by (simp add: s hd_rev)
  with l show ?thesis by (simp add: trimmed_def)
qed

lemma split_ws_from_word:
  "\<forall>c \<in> set s. \<not> is_space c \<Longrightarrow>
   split_ws_from cur s = (if cur @ s = [] then [] else [cur @ s])"
  by (induction s arbitrary: cur) auto

lemma split_ws_from_nonempty:
  "cur \<noteq> [] \<or> (\<exists>c \<in> set s. \<not> is_space c) \<Longrightarrow> split_ws_from cur s \<noteq> []"
  by (induction s arbitrary: cur) auto

lemma split_ws_from_break:
  "\<forall>c \<in> set a. \<not> is_space c \<Longrightarrow> is_space w \<Longrightarrow> cur @ a \<noteq> [] \<Longrightarrow>
   split_ws_from cur (a @ w # b) = (cur @ a) # split_ws_from [] b"
  by (induction a arbitrary: cur) auto

lemma single_token_iff:
  assumes "trimmed s"
  shows "length (py_split s) = 1 \<longleftrightarrow> s \<noteq> [] \<and> (\<forall>c \<in> set s. \<not> is_space c)"
proof
  assume "s \<noteq> [] \<and> (\<forall>c \<in> set s. \<not> is_space c)"
  then show "length (py_split s) = 1" by (simp add: py_split_def split_ws_from_word)
next
  assume one: "length (py_split s) = 1"
  then have ne: "s \<noteq> []" by (auto simp: py_split_def)
  with assms have h: "\<not> is_space (hd s)" and l: "\<not> is_space (last s)"
    by (auto simp: trimmed_def)
  have "\<forall>c \<in> set s. \<not> is_space c"
  proof (rule ccontr)
    assume "\<not> (\<forall>c \<in> set s. \<not> is_space c)"
    then have "\<exists>c \<in> set s. is_space c" by blast
    then obtain a w b where s: "s = a @ w # b" and w: "is_space w" and a: "\<forall>c \<in> set a. \<not> is_space c"
      using split_list_first_prop [of s is_space] by blast
    have "a \<noteq> []" using h w s by (cases a) auto
    moreover have "b \<noteq> []" using l w s by auto
    then have "last b = last s" using s by simp
    then have "\<exists>c \<in> set b. \<not> is_space c" using l \<open>b \<noteq> []\<close> last_in_set by metis
    then have "split_ws_from [] b \<noteq> []" by (simp add: split_ws_from_nonempty)
    ultimately have "length (py_split s) \<ge> 2"
      using split_ws_from_break [OF a w, of "[]" b] s
      by (cases "split_ws_from [] b") (auto simp: py_split_def)
    with one show False by simp
  qed
  with ne show "s \<noteq> [] \<and> (\<forall>c \<in> set s. \<not> is_space c)" by simp
qed

lemma split_parts_trimmed: "p \<in> set (split_parts text) \<Longrightarrow> p \<noteq> [] \<and> trimmed p"
  by (auto simp: split_parts_def trimmed_py_strip)

lemma heuristic_name_trimmed: "trimmed (product_name_of (simple_extraction text))"
proof (cases "split_parts text")
  case Nil
  then show ?thesis
    by (simp add: simple_extraction_def create_fallback_info_def observe_mk_info trimmed_def)
next
  case (Cons p0 cs)
  then have "trimmed p0" using split_parts_trimmed [of p0 "text"] by simp
  with Cons show ?thesis
    by (simp add: simple_extraction_def Let_def observe_mk_info trimmed_py_strip)
qed

section \<open>The example services\<close>

lemmas parse_eval = parse_llm_response_def py_rfind_def LBRACE_def RBRACE_def quoted_def

lemma pump_parse: "parse_llm_response (json_loads recovering_service) (Some pump_reply) = Inr (PDict pump_info)"
  by (simp add: recovering_service_def pump_json_def pump_reply_def pump_description_def parse_eval string_eval)

lemma garbled_parse: "parse_llm_response (json_loads garbled_service) (Some (cp ''I cannot help with that.'')) = Inl ValueError"
  by (simp add: garbled_service_def parse_eval string_eval)

lemma empty_parse: "parse_llm_response (json_loads empty_object_service) (Some (cp ''{}'')) = Inr (PDict [])"
  by (simp add: empty_object_service_def parse_eval string_eval)

lemma service_chat:
  "chat offline_service n t = ChatConnectionError"
  "chat recovering_service n t = (if n < 2 then ChatConnectionError else ChatMessage (Some pump_reply))"
  "chat garbled_service n t = ChatMessage (Some (cp ''I cannot help with that.''))"
  "chat empty_object_service n t = ChatMessage (Some (cp ''{}''))"
  "chat surrogate_service n t = ChatMessage (Some surrogate_reply)"
  by (simp_all add: offline_service_def recovering_service_def garbled_service_def
      empty_object_service_def surrogate_service_def)

lemma service_console:
  "console offline_service t f i = None"
  "console recovering_service t f i = None"
  "console garbled_service t f i = None"
  "console empty_object_service t f i = None"
  "console surrogate_service = utf8_console"
  by (simp_all add: offline_service_def recovering_service_def garbled_service_def
      empty_object_service_def surrogate_service_def)

lemma surrogate_parse:
  "parse_llm_response (json_loads surrogate_service) (Some surrogate_reply) =
     Inr (PDict surrogate_info)"
  by (simp add: surrogate_service_def surrogate_reply_def parse_eval string_eval)

lemmas llm_eval = call_llm_for_extraction_def max_retries_def upt_rec llm_attempts_step
  attempt_result_def got_message_def service_chat pump_parse garbled_parse empty_parse
  surrogate_parse new_processor_def


lemma pump_extraction:
  "simple_extraction pump_text =
     mk_info (cp ''Kreiselpumpe'') [cp ''DN 50''] (cp ''other'') (cp ''Kreiselpumpe DN 50'')"
  by (simp add: pump_text_def string_eval heuristic_eval)

lemma apic_extraction:
  "simple_extraction apic_text =
       mk_info (cp ''APIC Wasserfilter FMA 9000'') [cp ''Ref: 9000/CPF01/230/VH'', cp ''Pos. 48'']
         (cp ''filter'') (cp ''APIC Wasserfilter FMA 9000 Ref: 9000/CPF'')"
  by (simp add: apic_text_def string_eval heuristic_eval)

section \<open>Escalation to the generative path\<close>

text \<open>
  C2. The orchestrator sends a request to the service exactly when the heuristic result
  has no characteristics or its product name splits into exactly one token; for the name
  the heuristic extractor builds, one token means non-empty and free of whitespace. A
  result with a characteristic and a name of another number of tokens is returned as it
  is, with the processor unchanged.
\<close>

theorem escalation_rule:
  "(requests st < requests (snd (extract_with_fallback ex text st)) \<longleftrightarrow>
      characteristics_of (simple_extraction text) = [] \<or>
      length (py_split (product_name_of (simple_extraction text))) = 1) \<and>
   (length (py_split (product_name_of (simple_extraction text))) = 1 \<longleftrightarrow>
      product_name_of (simple_extraction text) \<noteq> [] \<and>
      \<not> list_ex is_space (product_name_of (simple_extraction text))) \<and>
   (characteristics_of (simple_extraction text) \<noteq> [] \<and>
    length (py_split (product_name_of (simple_extraction text))) \<noteq> 1 \<longrightarrow>
      extract_with_fallback ex text st = (PDict (simple_extraction text), st))"
proof -
  have "length (py_split (product_name_of (simple_extraction text))) = 1 \<longleftrightarrow>
      product_name_of (simple_extraction text) \<noteq> [] \<and>
      \<not> list_ex is_space (product_name_of (simple_extraction text))"
    using single_token_iff [OF heuristic_name_trimmed, of "text"]
    by (simp add: list_ex_iff)
  then show ?thesis
    using escalation_iff [of st ex "text"] by (simp add: extract_with_fallback_cases)
qed

theorem escalation_rule_witness:
  "characteristics_of (simple_extraction apic_text) \<noteq> [] \<and>
   length (py_split (product_name_of (simple_extraction apic_text))) \<noteq> 1 \<and>
   extract_with_fallback offline_service apic_text new_processor =
     (PDict (simple_extraction apic_text), new_processor) \<and>
   length (py_split (product_name_of (simple_extraction pump_text))) = 1 \<and>
   requests new_processor < requests (snd (extract_with_fallback offline_service pump_text new_processor))"
proof -
  have a: "characteristics_of (simple_extraction apic_text) \<noteq> []"
    by (simp add: apic_extraction observe_mk_info)
  have b: "length (py_split (product_name_of (simple_extraction apic_text))) \<noteq> 1"
    by (simp add: apic_extraction observe_mk_info py_split_def string_eval)
  have c: "length (py_split (product_name_of (simple_extraction pump_text))) = 1"
    by (simp add: pump_extraction observe_mk_info py_split_def string_eval)
  from a b escalation_rule [of new_processor offline_service apic_text]
  have "extract_with_fallback offline_service apic_text new_processor =
     (PDict (simple_extraction apic_text), new_processor)" by blast
  moreover from c escalation_rule [of new_processor offline_service pump_text]
  have "requests new_processor < requests (snd (extract_with_fallback offline_service pump_text new_processor))"
    by blast
  ultimately show ?thesis using a b c by simp
qed

text \<open>
  C10. When the pipe-split of a text leaves no non-empty trimmed segment, the heuristic
  extractor returns the fallback structure with empty product name and no
  characteristics; the orchestrator then always calls the service, and when that call
  returns a value the fallback counter is as it was before.
\<close>

theorem blank_text_escalates:
  assumes "split_parts text = []"
  shows "simple_extraction text = mk_info [] [] (cp ''other'') [] \<and>
     product_name_of (simple_extraction text) = [] \<and>
     characteristics_of (simple_extraction text) = [] \<and>
     requests st < requests (snd (extract_with_fallback ex text st)) \<and>
     extract_with_fallback ex text st =
       (case call_llm_for_extraction ex text st of
          (Inr v, st') \<Rightarrow> (v, st')
        | (Inl e, st') \<Rightarrow> use_fallback text st') \<and>
     (\<forall>v st'. call_llm_for_extraction ex text st = (Inr v, st') \<longrightarrow>
        extract_with_fallback ex text st = (v, st') \<and> llm_fallbacks st' = llm_fallbacks st)"
proof -
  have h: "simple_extraction text = mk_info [] [] (cp ''other'') []"
    using assms by (simp add: simple_extraction_def create_fallback_info_def)
  then have obs: "product_name_of (simple_extraction text) = []"
      "characteristics_of (simple_extraction text) = []"
    by (simp_all add: observe_mk_info)
  have esc: "requests st < requests (snd (extract_with_fallback ex text st))"
    using escalation_iff [of st ex "text"] obs by simp
  have unfold: "extract_with_fallback ex text st =
       (case call_llm_for_extraction ex text st of
          (Inr v, st') \<Rightarrow> (v, st')
        | (Inl e, st') \<Rightarrow> use_fallback text st')"
    using obs by (simp add: extract_with_fallback_cases)
  have "llm_fallbacks st' = llm_fallbacks st"
    if "call_llm_for_extraction ex text st = (Inr v, st')" for v st'
    using that llm_attempts_keeps [of ex "text" "[0..<max_retries]" st]
    by (simp add: call_llm_for_extraction_def)
  with h obs esc unfold show ?thesis by simp
qed

theorem blank_text_escalates_witness:
  "preprocess_text (PStr bar_text) = bar_text \<and> bar_text \<noteq> [] \<and> split_parts bar_text = [] \<and>
   simple_extraction bar_text = mk_info [] [] (cp ''other'') [] \<and>
   requests new_processor < requests (snd (extract_with_fallback recovering_service bar_text new_processor)) \<and>
   llm_fallbacks (snd (extract_with_fallback recovering_service bar_text new_processor)) = 0"
proof -
  have n: "preprocess_text (PStr bar_text) = bar_text" "bar_text \<noteq> []"
    by (simp_all add: bar_text_def string_eval normalizer_eval)
  have s: "split_parts bar_text = []"
    by (simp add: bar_text_def split_parts_def string_eval)
  have c: "call_llm_for_extraction recovering_service bar_text new_processor =
      (Inr (PDict pump_info), new_processor\<lparr>requests := 3, llm_calls := 1\<rparr>)"
    by (simp add: llm_eval)
  note inst = blank_text_escalates [OF s, of new_processor recovering_service]
  from inst have h: "simple_extraction bar_text = mk_info [] [] (cp ''other'') []" by blast
  from inst have r:
    "requests new_processor <
       requests (snd (extract_with_fallback recovering_service bar_text new_processor))"
    by blast
  from inst have
    "extract_with_fallback recovering_service bar_text new_processor =
       (case call_llm_for_extraction recovering_service bar_text new_processor of
          (Inr v, st') \<Rightarrow> (v, st')
        | (Inl e, st') \<Rightarrow> use_fallback bar_text st')"
    by blast
  then have "llm_fallbacks (snd (extract_with_fallback recovering_service bar_text new_processor)) = 0"
    by (simp add: c) (simp add: new_processor_def)
  with n s h r show ?thesis by blast
qed

section \<open>Accounting of the retries\<close>

text \<open>
  C3, as amended. A call of the retry loop sends between one and three requests.
  \<open>llm_calls\<close> grows by one for every request of the call that got a response with a
  message, whether or not its content then parsed. If the call returns a value, the last
  request is the one that gave it, every earlier one failed, and \<open>llm_errors\<close> is
  unchanged. If the call fails, it fails with \<open>RuntimeError\<close> after exactly three
  failed requests, \<open>llm_errors\<close> grows by one, and the orchestrator (when it escalated)
  returns the fallback structure with the fallback counter grown by one. Two connection
  errors followed by a success give three requests, one counted call and no error.
\<close>

theorem retry_accounting:
  assumes "call_llm_for_extraction ex text st = (r, st')"
  shows
   "requests st < requests st' \<and> requests st' \<le> requests st + 3 \<and>
    llm_calls st' =
      llm_calls st + length (filter (got_message ex text) [requests st ..< requests st']) \<and>
    llm_fallbacks st' = llm_fallbacks st \<and>
    (case r of
       Inr v \<Rightarrow>
         llm_errors st' = llm_errors st \<and>
         attempt_result ex text (requests st' - 1) = Some v \<and>
         (\<forall>n. requests st \<le> n \<and> n < requests st' - 1 \<longrightarrow> attempt_result ex text n = None)
     | Inl e \<Rightarrow>
         e = RuntimeError \<and> llm_errors st' = llm_errors st + 1 \<and>
         requests st' = requests st + 3 \<and>
         (\<forall>n. requests st \<le> n \<and> n < requests st + 3 \<longrightarrow> attempt_result ex text n = None) \<and>
         (characteristics_of (simple_extraction text) = [] \<or>
          length (py_split (product_name_of (simple_extraction text))) = 1 \<longrightarrow>
            extract_with_fallback ex text st =
              (PDict (create_fallback_info text), st'\<lparr>llm_fallbacks := llm_fallbacks st + 1\<rparr>))) \<and>
    (\<forall>v. chat ex (requests st) text = ChatConnectionError \<and>
         chat ex (requests st + 1) text = ChatConnectionError \<and>
         attempt_result ex text (requests st + 2) = Some v \<longrightarrow>
         r = Inr v \<and> requests st' = requests st + 3 \<and>
         llm_calls st' = llm_calls st + 1 \<and> llm_errors st' = llm_errors st) \<and>
    ((\<forall>n. requests st \<le> n \<and> n < requests st + 3 \<longrightarrow> attempt_result ex text n = None) \<longrightarrow>
         r = Inl RuntimeError \<and> llm_errors st' = llm_errors st + 1 \<and>
         llm_calls st' =
           llm_calls st + length (filter (got_message ex text) [requests st ..< requests st + 3]))"
proof -
  let ?as = "[0..<max_retries]"
  have run: "llm_attempts ex text ?as st = (r, st')"
    using assms by (simp add: call_llm_for_extraction_def)
  have len: "length ?as = 3" by (simp add: max_retries_def)
  have bounds: "requests st < requests st'" "requests st' \<le> requests st + 3"
    using llm_attempts_requests [of ex "text" ?as st] run len
    by (auto simp: max_retries_def)
  have calls: "llm_calls st' =
      llm_calls st + length (filter (got_message ex text) [requests st ..< requests st'])"
    using llm_attempts_calls [of ex "text" ?as st] run by simp
  have keeps: "llm_fallbacks st' = llm_fallbacks st"
    using llm_attempts_keeps [of ex "text" ?as st] run by simp
  have outcome: "(case r of
       Inr v \<Rightarrow>
         llm_errors st' = llm_errors st \<and>
         attempt_result ex text (requests st' - 1) = Some v \<and>
         (\<forall>n. requests st \<le> n \<and> n < requests st' - 1 \<longrightarrow> attempt_result ex text n = None)
     | Inl e \<Rightarrow>
         e = RuntimeError \<and> llm_errors st' = llm_errors st + 1 \<and>
         requests st' = requests st + 3 \<and>
         (\<forall>n. requests st \<le> n \<and> n < requests st + 3 \<longrightarrow> attempt_result ex text n = None) \<and>
         (characteristics_of (simple_extraction text) = [] \<or>
          length (py_split (product_name_of (simple_extraction text))) = 1 \<longrightarrow>
            extract_with_fallback ex text st =
              (PDict (create_fallback_info text), st'\<lparr>llm_fallbacks := llm_fallbacks st + 1\<rparr>)))"
  proof (cases r)
    case (Inl e)
    with llm_attempts_outcome [where ex = ex and t = "text" and atts = ?as and st = st] run len
    have "e = RuntimeError \<and> llm_errors st' = llm_errors st + 1 \<and>
         requests st' = requests st + 3 \<and>
         (\<forall>n. requests st \<le> n \<and> n < requests st + 3 \<longrightarrow> attempt_result ex text n = None)"
      by simp
    moreover have "extract_with_fallback ex text st =
        (PDict (create_fallback_info text), st'\<lparr>llm_fallbacks := llm_fallbacks st + 1\<rparr>)"
      if "characteristics_of (simple_extraction text) = [] \<or>
          length (py_split (product_name_of (simple_extraction text))) = 1"
      using fallback_after_failure [OF _ that] assms Inl by simp
    ultimately show ?thesis using Inl by simp
  next
    case (Inr v)
    with llm_attempts_outcome [where ex = ex and t = "text" and atts = ?as and st = st] run show ?thesis by simp
  qed
  have two: "r = Inr v \<and> requests st' = requests st + 3 \<and>
         llm_calls st' = llm_calls st + 1 \<and> llm_errors st' = llm_errors st"
    if "chat ex (requests st) text = ChatConnectionError \<and>
         chat ex (requests st + 1) text = ChatConnectionError \<and>
         attempt_result ex text (requests st + 2) = Some v" for v
    using call_llm_two_refusals [of ex st "text" v] that assms by auto
  have three: "r = Inl RuntimeError \<and> llm_errors st' = llm_errors st + 1 \<and>
         llm_calls st' =
           llm_calls st + length (filter (got_message ex text) [requests st ..< requests st + 3])"
    if none: "\<forall>n. requests st \<le> n \<and> n < requests st + 3 \<longrightarrow> attempt_result ex text n = None"
  proof (cases r)
    case (Inl e)
    with outcome calls show ?thesis by simp
  next
    case (Inr v)
    with outcome have "attempt_result ex text (requests st' - 1) = Some v" by simp
    moreover have "requests st \<le> requests st' - 1" "requests st' - 1 < requests st + 3"
      using bounds by simp_all
    ultimately show ?thesis using none by (metis option.distinct(1))
  qed
  from bounds calls keeps outcome two three show ?thesis by blast
qed

theorem retry_accounting_witness:
  "call_llm_for_extraction recovering_service pump_text new_processor =
     (Inr (PDict pump_info), new_processor\<lparr>requests := 3, llm_calls := 1\<rparr>) \<and>
   chat recovering_service 0 pump_text = ChatConnectionError \<and>
   chat recovering_service 1 pump_text = ChatConnectionError \<and>
   attempt_result recovering_service pump_text 2 = Some (PDict pump_info) \<and>
   requests (new_processor\<lparr>requests := 3, llm_calls := 1\<rparr>) = requests new_processor + 3 \<and>
   llm_calls (new_processor\<lparr>requests := 3, llm_calls := 1\<rparr>) = llm_calls new_processor + 1 \<and>
   llm_errors (new_processor\<lparr>requests := 3, llm_calls := 1\<rparr>) = llm_errors new_processor"
proof -
  have c: "call_llm_for_extraction recovering_service pump_text new_processor =
     (Inr (PDict pump_info), new_processor\<lparr>requests := 3, llm_calls := 1\<rparr>)"
    by (simp add: llm_eval)
  have r0: "requests new_processor = 0" by (simp add: new_processor_def)
  have h: "chat recovering_service (requests new_processor) pump_text = ChatConnectionError"
    "chat recovering_service (requests new_processor + 1) pump_text = ChatConnectionError"
    "attempt_result recovering_service pump_text (requests new_processor + 2) = Some (PDict pump_info)"
    by (simp_all add: r0 attempt_result_def service_chat pump_parse)
  from retry_accounting [OF c] h
  have "requests (new_processor\<lparr>requests := 3, llm_calls := 1\<rparr>) = requests new_processor + 3 \<and>
   llm_calls (new_processor\<lparr>requests := 3, llm_calls := 1\<rparr>) = llm_calls new_processor + 1 \<and>
   llm_errors (new_processor\<lparr>requests := 3, llm_calls := 1\<rparr>) = llm_errors new_processor"
    by blast
  moreover have "chat recovering_service 0 pump_text = ChatConnectionError"
    "chat recovering_service 1 pump_text = ChatConnectionError"
    "attempt_result recovering_service pump_text 2 = Some (PDict pump_info)"
    by (simp_all add: attempt_result_def service_chat pump_parse)
  ultimately show ?thesis using c by blast
qed

text \<open>
  C3 as stated fails: when the service answers three times with a text that holds no
  JSON, all three attempts fail and the call fails, yet \<open>llm_calls\<close> is 3 and not 0.
\<close>

theorem unparsed_replies_are_counted:
  "attempt_result garbled_service pump_text 0 = None \<and>
   attempt_result garbled_service pump_text 1 = None \<and>
   attempt_result garbled_service pump_text 2 = None \<and>
   fst (call_llm_for_extraction garbled_service pump_text new_processor) = Inl RuntimeError \<and>
   llm_errors (snd (call_llm_for_extraction garbled_service pump_text new_processor)) = 1 \<and>
   llm_calls (snd (call_llm_for_extraction garbled_service pump_text new_processor)) = 3 \<and>
   llm_calls (snd (call_llm_for_extraction garbled_service pump_text new_processor)) \<noteq> 0"
  by (simp add: llm_eval)

section \<open>The length of the descriptions\<close>





lemma extract_keeps_answers:
  "answer_list (snd (extract_with_fallback ex text st)) = answer_list st"
  using llm_attempts_keeps [of ex "text" "[0..<max_retries]" st]
  by (auto simp: extract_with_fallback_cases use_fallback_def call_llm_for_extraction_def
      split: prod.splits sum.splits)







text \<open>
  C1 as stated fails on the generative path: the service's reply to \<open>pump_text\<close> has a
  short description of 43 characters, and it is this reply that the orchestrator returns
  and the batch stores as the structured information of the row.
\<close>

lemma pump_clean: "preprocess_text (PStr pump_text) = pump_text"
  by (simp add: pump_text_def string_eval normalizer_eval)


lemmas synth_eval = create_standardized_description_def fallback_construction_def append_piece_def
  finish_description_def and_then_def py_get_def py_getitem_def



section \<open>The two synthesis steps\<close>

text \<open>
  C4. The two steps differ when exactly three characters remain. For a name of 36
  characters and a first characteristic that does not fit, the heuristic extractor keeps
  the name alone as the short description (its test is \<open>remaining_space > 3\<close>), while the
  fallback construction of the final description appends a space and the first three
  characters of the characteristic (its test is \<open>space_left >= 3\<close>).
\<close>

theorem synthesis_steps_differ:
  "length cylinder_name = 36 \<and>
   product_name_of (simple_extraction cylinder_text) = cylinder_name \<and>
   characteristics_of (simple_extraction cylinder_text) = [PStr (cp ''Hub 500 mm'')] \<and>
   py_get (simple_extraction cylinder_text) ''short_description'' = PStr cylinder_name \<and>
   fallback_construction (simple_extraction cylinder_text) =
     Inr (PStr (cylinder_name @ cp '' Hub''), PDict (simple_extraction cylinder_text))"
proof -
  have e: "simple_extraction cylinder_text =
      mk_info cylinder_name [cp ''Hub 500 mm''] (cp ''other'') cylinder_name"
    by (simp add: cylinder_text_def cylinder_name_def string_eval heuristic_eval Let_def)
  have "fallback_construction (mk_info cylinder_name [cp ''Hub 500 mm''] (cp ''other'') cylinder_name) =
     Inr (PStr (cylinder_name @ cp '' Hub''),
          PDict (mk_info cylinder_name [cp ''Hub 500 mm''] (cp ''other'') cylinder_name))"
    by (simp add: synth_eval mk_info_def cylinder_name_def cp_def SPACE_def)
  then show ?thesis
    by (simp add: e observe_mk_info getitem_mk_info) (simp add: cylinder_name_def cp_def)
qed

section \<open>Isolation of the rows of a batch\<close>

lemma process_materials_append:
  "process_materials ex (before @ after) st =
     process_materials ex after (process_materials ex before st)"
  by (induction before arbitrary: st) simp_all

lemma row_body_error_before:
  assumes "row_body ex r st = (Some e, st')"
  shows "answer_list st' = answer_list st \<or>
     (\<exists>rec. answer_list st' = answer_list st @ [rec] \<and> error rec = None \<and>
        original_text rec = row_text r)"
proof -
  define cleaned where "cleaned = preprocess_text (PStr (row_text r))"
  obtain info st1 where ext: "extract_with_fallback ex cleaned st = (info, st1)"
    by (cases "extract_with_fallback ex cleaned st")
  have keep: "answer_list st1 = answer_list st"
    using extract_keeps_answers [of ex cleaned st] ext by simp
  have ne: "cleaned \<noteq> []"
    using assms by (auto simp: row_body_def cleaned_def Let_def split: if_splits)
  show ?thesis
  proof (cases "create_standardized_description info")
    case (Inl e')
    then have "st' = st1"
      using assms ne ext by (simp add: row_body_def cleaned_def [symmetric])
    with keep show ?thesis by simp
  next
    case (Inr res)
    obtain final info' where res: "res = (final, info')" by (cases res)
    have "st' = st1\<lparr>answer_list := answer_list st1 @
        [\<lparr>original_text = row_text r, cleaned_text = cleaned, structured_info = Some info',
          error = None, final_description = final\<rparr>]\<rparr>"
      using assms ne ext Inr res by (auto simp: row_body_def cleaned_def [symmetric] Let_def)
    with keep show ?thesis by simp
  qed
qed

lemma process_row_texts:
  "\<exists>k. k \<le> 2 \<and> (k = 0 \<longleftrightarrow> preprocess_text (PStr (row_text r)) = []) \<and>
      map original_text (answer_list (process_row ex r st)) =
        map original_text (answer_list st) @ replicate k (row_text r)"
proof -
  define cleaned where "cleaned = preprocess_text (PStr (row_text r))"
  obtain info st1 where ext: "extract_with_fallback ex cleaned st = (info, st1)"
    by (cases "extract_with_fallback ex cleaned st")
  have keep: "answer_list st1 = answer_list st"
    using extract_keeps_answers [of ex cleaned st] ext by simp
  show ?thesis
  proof (cases "cleaned = []")
    case True
    then have "map original_text (answer_list (process_row ex r st)) =
        map original_text (answer_list st) @ replicate 0 (row_text r)"
      by (simp add: process_row_def row_body_def cleaned_def)
    with True show ?thesis unfolding cleaned_def by (intro exI [of _ 0]) simp
  next
    case False
    show ?thesis
    proof (cases "create_standardized_description info")
      case (Inl e)
      then have "map original_text (answer_list (process_row ex r st)) =
          map original_text (answer_list st) @ replicate 1 (row_text r)"
        using False ext keep
        by (simp add: process_row_def row_body_def cleaned_def [symmetric] error_record_def)
      with False show ?thesis unfolding cleaned_def by (intro exI [of _ 1]) simp
    next
      case (Inr res)
      obtain final info' where res: "res = (final, info')" by (cases res)
      show ?thesis
      proof (cases "console ex (row_text r) final info'")
        case None
        then have "map original_text (answer_list (process_row ex r st)) =
            map original_text (answer_list st) @ replicate 1 (row_text r)"
          using False ext keep Inr res
          by (simp add: process_row_def row_body_def cleaned_def [symmetric])
        with False show ?thesis unfolding cleaned_def by (intro exI [of _ 1]) simp
      next
        case (Some e)
        then have "map original_text (answer_list (process_row ex r st)) =
            map original_text (answer_list st) @ replicate 2 (row_text r)"
          using False ext keep Inr res
          by (simp add: process_row_def row_body_def cleaned_def [symmetric] error_record_def
              numeral_2_eq_2)
        with False show ?thesis unfolding cleaned_def by (intro exI [of _ 2]) simp
      qed
    qed
  qed
qed

lemma process_materials_texts:
  "\<exists>ks. list_all2 (\<lambda>r k. k \<le> 2 \<and> (k = 0 \<longleftrightarrow> preprocess_text (PStr (row_text r)) = [])) rows ks \<and>
      map original_text (answer_list (process_materials ex rows st)) =
        map original_text (answer_list st) @
        concat (map (\<lambda>(r, k). replicate k (row_text r)) (zip rows ks))"
proof (induction rows arbitrary: st)
  case Nil
  then show ?case by simp
next
  case (Cons r rows)
  obtain k where k: "k \<le> 2" "k = 0 \<longleftrightarrow> preprocess_text (PStr (row_text r)) = []"
    "map original_text (answer_list (process_row ex r st)) =
        map original_text (answer_list st) @ replicate k (row_text r)"
    using process_row_texts [of r ex st] by blast
  obtain ks where ks:
    "list_all2 (\<lambda>r k. k \<le> 2 \<and> (k = 0 \<longleftrightarrow> preprocess_text (PStr (row_text r)) = [])) rows ks"
    "map original_text (answer_list (process_materials ex rows (process_row ex r st))) =
        map original_text (answer_list (process_row ex r st)) @
        concat (map (\<lambda>(r, k). replicate k (row_text r)) (zip rows ks))"
    using Cons.IH [of "process_row ex r st"] by blast
  show ?case
    using k ks by (intro exI [of _ "k # ks"]) simp
qed

text \<open>
  C8. When an exception leaves the body of a row, whatever raised it and wherever the row
  stands in the batch, a record is appended for the row whose error field holds the
  exception, whose final description is \<open>ERROR\<close> and which has no structured
  information, and the batch goes on with the rows after it from the processor as the row
  left it. The exception of a \<open>print\<close> statement comes after the row's own record was
  appended, so the list then holds that record (with no error) and the error record after
  it; any other exception leaves the list as it was before the row. Over a whole batch
  every row with a non-empty cleaned text has one or two records and every other row
  none, in row order. The loop itself returns a processor and never an exception.
\<close>

theorem batch_isolation:
  "(row_body ex r (process_materials ex before st) = (Some e, st') \<longrightarrow>
      process_materials ex (before @ r # after) st =
        process_materials ex after
          (st'\<lparr>answer_list := answer_list st' @
             [\<lparr>original_text = row_text r,
               cleaned_text = preprocess_text (PStr (row_text r)),
               structured_info = None, error = Some e, final_description = ERROR\<rparr>]\<rparr>) \<and>
      (answer_list st' = answer_list (process_materials ex before st) \<or>
       (\<exists>rec. answer_list st' = answer_list (process_materials ex before st) @ [rec] \<and>
          error rec = None \<and> original_text rec = row_text r))) \<and>
   (\<exists>ks. list_all2 (\<lambda>r k. k \<le> 2 \<and> (k = 0 \<longleftrightarrow> preprocess_text (PStr (row_text r)) = [])) rows ks \<and>
      map original_text (answer_list (process_materials ex rows st)) =
        map original_text (answer_list st) @
        concat (map (\<lambda>(r, k). replicate k (row_text r)) (zip rows ks)))"
proof -
  have "process_materials ex (before @ r # after) st =
        process_materials ex after
          (st'\<lparr>answer_list := answer_list st' @
             [\<lparr>original_text = row_text r,
               cleaned_text = preprocess_text (PStr (row_text r)),
               structured_info = None, error = Some e, final_description = ERROR\<rparr>]\<rparr>)"
    if "row_body ex r (process_materials ex before st) = (Some e, st')"
    using that by (simp add: process_materials_append process_row_def error_record_def)
  moreover have "answer_list st' = answer_list (process_materials ex before st) \<or>
       (\<exists>rec. answer_list st' = answer_list (process_materials ex before st) @ [rec] \<and>
          error rec = None \<and> original_text rec = row_text r)"
    if "row_body ex r (process_materials ex before st) = (Some e, st')"
    using that by (rule row_body_error_before)
  ultimately show ?thesis using process_materials_texts [of rows ex st] by blast
qed

lemma apic_clean: "preprocess_text (PStr apic_text) = apic_text"
  by (simp add: apic_text_def string_eval normalizer_eval)

lemma empty_object_final:
  "create_standardized_description (PDict []) = Inl (KeyError (Some (cp ''product_name'')))"
  by (simp add: synth_eval)

lemma pump_one_token: "length (py_split (product_name_of (simple_extraction pump_text))) = 1"
  by (simp add: pump_extraction observe_mk_info py_split_def string_eval)

lemma pump_row_text: "row_text pump_row = pump_text" "pump_text \<noteq> []"
  by (simp_all add: pump_row_def row_text_def pump_text_def cp_def)

lemma pump_row_raises:
  "row_body empty_object_service pump_row new_processor =
     (Some (KeyError (Some (cp ''product_name''))), new_processor\<lparr>requests := 1, llm_calls := 1\<rparr>)"
proof -
  have "call_llm_for_extraction empty_object_service pump_text new_processor =
     (Inr (PDict []), new_processor\<lparr>requests := 1, llm_calls := 1\<rparr>)"
    by (simp add: llm_eval)
  then have "extract_with_fallback empty_object_service pump_text new_processor =
     (PDict [], new_processor\<lparr>requests := 1, llm_calls := 1\<rparr>)"
    using pump_one_token by (simp add: extract_with_fallback_cases)
  then show ?thesis
    by (simp add: row_body_def pump_row_text pump_clean empty_object_final)
qed

lemma pump_row_print_raises:
  "row_body surrogate_service pump_row new_processor =
     (Some UnicodeEncodeError,
      new_processor\<lparr>requests := 1, llm_calls := 1,
        answer_list :=
          [\<lparr>original_text = pump_text, cleaned_text = pump_text,
            structured_info = Some (PDict surrogate_info), error = None,
            final_description = PStr (cp ''Pumpe'')\<rparr>]\<rparr>)"
proof -
  have "call_llm_for_extraction surrogate_service pump_text new_processor =
     (Inr (PDict surrogate_info), new_processor\<lparr>requests := 1, llm_calls := 1\<rparr>)"
    by (simp add: llm_eval)
  then have "extract_with_fallback surrogate_service pump_text new_processor =
     (PDict surrogate_info, new_processor\<lparr>requests := 1, llm_calls := 1\<rparr>)"
    using pump_one_token by (simp add: extract_with_fallback_cases)
  moreover have "create_standardized_description (PDict surrogate_info) =
      Inr (PStr (cp ''Pumpe''), PDict surrogate_info)"
    by (simp add: synth_eval surrogate_info_def cp_def Let_def)
  moreover have "utf8_console pump_text (PStr (cp ''Pumpe'')) (PDict surrogate_info) =
      Some UnicodeEncodeError"
    by (simp add: utf8_console_def surrogate_info_def is_surrogate_def)
  ultimately show ?thesis
    by (simp add: row_body_def pump_row_text pump_clean service_console)
       (simp add: new_processor_def)
qed

lemma apic_row_normal:
  assumes "console ex apic_text (PStr (cp ''APIC Wasserfilter FMA 9000 Ref: 9000/CPF''))
             (PDict (simple_extraction apic_text)) = None"
  shows "process_row ex apic_row st =
     st\<lparr>answer_list := answer_list st @
       [\<lparr>original_text = apic_text, cleaned_text = apic_text,
         structured_info = Some (PDict (simple_extraction apic_text)), error = None,
         final_description = PStr (cp ''APIC Wasserfilter FMA 9000 Ref: 9000/CPF'')\<rparr>]\<rparr>"
proof -
  have "length (py_split (product_name_of (simple_extraction apic_text))) \<noteq> 1"
    by (simp add: apic_extraction observe_mk_info py_split_def string_eval)
  moreover have "characteristics_of (simple_extraction apic_text) \<noteq> []"
    by (simp add: apic_extraction observe_mk_info)
  ultimately have "extract_with_fallback ex apic_text st =
     (PDict (simple_extraction apic_text), st)"
    by (simp add: extract_with_fallback_cases)
  moreover have "row_text apic_row = apic_text" by (simp add: apic_row_def row_text_def)
  moreover have "apic_text \<noteq> []" by (simp add: apic_text_def cp_def)
  moreover have "create_standardized_description (PDict (simple_extraction apic_text)) =
      Inr (PStr (cp ''APIC Wasserfilter FMA 9000 Ref: 9000/CPF''), PDict (simple_extraction apic_text))"
    by (simp add: apic_extraction create_standardized_description_def getitem_mk_info
        and_then_def cp_def)
  ultimately show ?thesis
    using assms by (simp add: process_row_def row_body_def apic_clean)
qed

lemma apic_prints:
  "utf8_console apic_text (PStr (cp ''APIC Wasserfilter FMA 9000 Ref: 9000/CPF''))
     (PDict (simple_extraction apic_text)) = None"
  unfolding apic_extraction
  by (simp add: utf8_console_def mk_info_def apic_text_def cp_def is_surrogate_def)

theorem batch_isolation_witness:
  "row_body empty_object_service pump_row new_processor =
     (Some (KeyError (Some (cp ''product_name''))), new_processor\<lparr>requests := 1, llm_calls := 1\<rparr>) \<and>
   answer_list (process_materials empty_object_service [pump_row, apic_row] new_processor) =
     [\<lparr>original_text = pump_text, cleaned_text = pump_text, structured_info = None,
       error = Some (KeyError (Some (cp ''product_name''))), final_description = ERROR\<rparr>,
      \<lparr>original_text = apic_text, cleaned_text = apic_text,
       structured_info = Some (PDict (simple_extraction apic_text)), error = None,
       final_description = PStr (cp ''APIC Wasserfilter FMA 9000 Ref: 9000/CPF'')\<rparr>] \<and>
   fst (row_body surrogate_service pump_row new_processor) = Some UnicodeEncodeError \<and>
   answer_list (process_materials surrogate_service [pump_row, apic_row] new_processor) =
     [\<lparr>original_text = pump_text, cleaned_text = pump_text,
       structured_info = Some (PDict surrogate_info), error = None,
       final_description = PStr (cp ''Pumpe'')\<rparr>,
      \<lparr>original_text = pump_text, cleaned_text = pump_text, structured_info = None,
       error = Some UnicodeEncodeError, final_description = ERROR\<rparr>,
      \<lparr>original_text = apic_text, cleaned_text = apic_text,
       structured_info = Some (PDict (simple_extraction apic_text)), error = None,
       final_description = PStr (cp ''APIC Wasserfilter FMA 9000 Ref: 9000/CPF'')\<rparr>]"
proof -
  have a: "row_body empty_object_service pump_row (process_materials empty_object_service [] new_processor) =
     (Some (KeyError (Some (cp ''product_name''))), new_processor\<lparr>requests := 1, llm_calls := 1\<rparr>)"
    by (simp add: pump_row_raises)
  have "process_materials empty_object_service ([] @ pump_row # [apic_row]) new_processor =
        process_materials empty_object_service [apic_row]
          (new_processor\<lparr>requests := 1, llm_calls := 1,
             answer_list := answer_list (new_processor\<lparr>requests := 1, llm_calls := 1\<rparr>) @
             [\<lparr>original_text = row_text pump_row,
               cleaned_text = preprocess_text (PStr (row_text pump_row)),
               structured_info = None, error = Some (KeyError (Some (cp ''product_name''))),
               final_description = ERROR\<rparr>]\<rparr>)"
    using batch_isolation [where ex = empty_object_service and r = pump_row and before = "[]"
        and st = new_processor and after = "[apic_row]"] a
    by blast
  then have first:
    "answer_list (process_materials empty_object_service [pump_row, apic_row] new_processor) =
     [\<lparr>original_text = pump_text, cleaned_text = pump_text, structured_info = None,
       error = Some (KeyError (Some (cp ''product_name''))), final_description = ERROR\<rparr>,
      \<lparr>original_text = apic_text, cleaned_text = apic_text,
       structured_info = Some (PDict (simple_extraction apic_text)), error = None,
       final_description = PStr (cp ''APIC Wasserfilter FMA 9000 Ref: 9000/CPF'')\<rparr>]"
    by (simp add: apic_row_normal service_console pump_row_text pump_clean)
       (simp add: new_processor_def)
  have b: "row_body surrogate_service pump_row (process_materials surrogate_service [] new_processor) =
     (Some UnicodeEncodeError,
      new_processor\<lparr>requests := 1, llm_calls := 1,
        answer_list :=
          [\<lparr>original_text = pump_text, cleaned_text = pump_text,
            structured_info = Some (PDict surrogate_info), error = None,
            final_description = PStr (cp ''Pumpe'')\<rparr>]\<rparr>)"
    by (simp add: pump_row_print_raises)
  have "process_materials surrogate_service ([] @ pump_row # [apic_row]) new_processor =
        process_materials surrogate_service [apic_row]
          (new_processor\<lparr>requests := 1, llm_calls := 1,
        answer_list :=
          [\<lparr>original_text = pump_text, cleaned_text = pump_text,
            structured_info = Some (PDict surrogate_info), error = None,
            final_description = PStr (cp ''Pumpe'')\<rparr>],
             answer_list := answer_list (new_processor\<lparr>requests := 1, llm_calls := 1,
        answer_list :=
          [\<lparr>original_text = pump_text, cleaned_text = pump_text,
            structured_info = Some (PDict surrogate_info), error = None,
            final_description = PStr (cp ''Pumpe'')\<rparr>]\<rparr>) @
             [\<lparr>original_text = row_text pump_row,
               cleaned_text = preprocess_text (PStr (row_text pump_row)),
               structured_info = None, error = Some UnicodeEncodeError,
               final_description = ERROR\<rparr>]\<rparr>)"
    using batch_isolation [where ex = surrogate_service and r = pump_row and before = "[]"
        and st = new_processor and after = "[apic_row]"] b
    by blast
  then have second:
    "answer_list (process_materials surrogate_service [pump_row, apic_row] new_processor) =
     [\<lparr>original_text = pump_text, cleaned_text = pump_text,
       structured_info = Some (PDict surrogate_info), error = None,
       final_description = PStr (cp ''Pumpe'')\<rparr>,
      \<lparr>original_text = pump_text, cleaned_text = pump_text, structured_info = None,
       error = Some UnicodeEncodeError, final_description = ERROR\<rparr>,
      \<lparr>original_text = apic_text, cleaned_text = apic_text,
       structured_info = Some (PDict (simple_extraction apic_text)), error = None,
       final_description = PStr (cp ''APIC Wasserfilter FMA 9000 Ref: 9000/CPF'')\<rparr>]"
    using apic_prints
    by (simp add: apic_row_normal service_console pump_row_text pump_clean)
  show ?thesis
    using first second by (simp add: pump_row_raises pump_row_print_raises)
qed

section \<open>The product name\<close>

lemma lower_cp_shape: "(\<exists>y. lower_cp c = [y]) \<or> lower_cp c = [105, 775]"
  by (simp add: lower_cp_def)

lemma startswith_lower_step:
  assumes "x \<noteq> 105"
  shows "startswith (py_lower (c # s)) (x # ps) \<longleftrightarrow> lower_cp c = [x] \<and> startswith (py_lower s) ps"
  using lower_cp_shape [of c] assms by (auto simp: py_lower_def)

lemma startswith_lower_nil: "\<not> startswith (py_lower []) (x # ps)"
  by (simp add: py_lower_def)

lemma lower_cp_letters:
  "lower_cp c = [102] \<longleftrightarrow> c = 70 \<or> c = 102"
  "lower_cp c = [252] \<longleftrightarrow> c = 220 \<or> c = 252"
  "lower_cp c = [114] \<longleftrightarrow> c = 82 \<or> c = 114"
  "lower_cp c = [32] \<longleftrightarrow> c = 32"
  by (auto simp: lower_cp_def)

lemma fuer_prefix_iff:
  "startswith (py_lower p) fuer_prefix \<longleftrightarrow>
     (\<exists>a b c rest. p = a # b # c # 32 # rest \<and>
        (a = 70 \<or> a = 102) \<and> (b = 220 \<or> b = 252) \<and> (c = 82 \<or> c = 114))"
proof -
  have "startswith (py_lower p) fuer_prefix \<longleftrightarrow>
     (\<exists>a b c d rest. p = a # b # c # d # rest \<and>
        lower_cp a = [102] \<and> lower_cp b = [252] \<and> lower_cp c = [114] \<and> lower_cp d = [32])"
  proof (cases p)
    case Nil
    then show ?thesis by (simp add: fuer_prefix_def startswith_lower_nil)
  next
    case p1: (Cons a s1)
    show ?thesis
    proof (cases s1)
      case Nil
      with p1 show ?thesis
        by (simp add: fuer_prefix_def startswith_lower_step startswith_lower_nil)
    next
      case p2: (Cons b s2)
      show ?thesis
      proof (cases s2)
        case Nil
        with p1 p2 show ?thesis
          by (simp add: fuer_prefix_def startswith_lower_step startswith_lower_nil)
      next
        case p3: (Cons c s3)
        show ?thesis
        proof (cases s3)
          case Nil
          with p1 p2 p3 show ?thesis
            by (simp add: fuer_prefix_def startswith_lower_step startswith_lower_nil)
        next
          case (Cons d s4)
          with p1 p2 p3 show ?thesis
            by (simp add: fuer_prefix_def startswith_lower_step)
        qed
      qed
    qed
  qed
  then show ?thesis by (simp add: lower_cp_letters)
qed

lemma trimmed_tail_nonempty:
  assumes "trimmed p" and "p = a # b # c # 32 # rest"
  shows "py_strip (drop 4 p) \<noteq> []"
proof -
  have sp: "is_space 32" by (simp add: is_space_def)
  have l: "\<not> is_space (last p)" using assms by (simp add: trimmed_def)
  then have "rest \<noteq> []" using assms(2) sp by auto
  then have "last rest = last p" "last rest \<in> set rest" using assms(2) by simp_all
  then have "\<exists>x \<in> set rest. \<not> is_space x" using l by metis
  then show ?thesis using assms(2) by (simp add: py_strip_empty_iff)
qed

lemma chosen_name_nonempty:
  assumes "p0 \<in> set (split_parts text)"
  shows "(if startswith (py_lower p0) fuer_prefix then py_strip (drop 4 p0) else p0) \<noteq> []"
proof (cases "startswith (py_lower p0) fuer_prefix")
  case True
  then obtain a b c rest where p: "p0 = a # b # c # 32 # rest"
    by (auto simp: fuer_prefix_iff)
  have "trimmed p0" using split_parts_trimmed [OF assms] by simp
  then have "py_strip (drop 4 p0) \<noteq> []" using p by (rule trimmed_tail_nonempty)
  with True show ?thesis by simp
next
  case False
  with split_parts_trimmed [OF assms] show ?thesis by simp
qed

text \<open>
  C9, as amended. When the pipe-split of the text has a non-empty trimmed segment, the
  product name of the heuristic result and of the fallback result is non-empty: it is the
  first segment, or, when the lowercased first segment starts with the prefix, the first
  segment without its first four characters, trimmed. The prefix is found exactly when
  the segment starts with f, u with diaeresis, r in either case, followed by a space.
\<close>

theorem product_name_nonempty:
  assumes "split_parts text = p0 # rest"
  shows "product_name_of (simple_extraction text) \<noteq> [] \<and>
     product_name_of (create_fallback_info text) = product_name_of (simple_extraction text) \<and>
     product_name_of (simple_extraction text) =
       (if startswith (py_lower p0) fuer_prefix then py_strip (drop 4 p0) else p0) \<and>
     (startswith (py_lower p0) fuer_prefix \<longleftrightarrow>
       (\<exists>a b c tail. p0 = a # b # c # 32 # tail \<and>
          (a = 70 \<or> a = 102) \<and> (b = 220 \<or> b = 252) \<and> (c = 82 \<or> c = 114)))"
proof -
  have name: "product_name_of (simple_extraction text) =
       (if startswith (py_lower p0) fuer_prefix then py_strip (drop 4 p0) else p0)"
    using assms by (simp add: simple_extraction_def Let_def observe_mk_info)
  have same: "product_name_of (create_fallback_info text) = product_name_of (simple_extraction text)"
    using assms by (simp add: simple_extraction_def create_fallback_info_def Let_def observe_mk_info)
  have "p0 \<in> set (split_parts text)" using assms by simp
  then have "product_name_of (simple_extraction text) \<noteq> []"
    unfolding name by (rule chosen_name_nonempty)
  with name same fuer_prefix_iff [of p0] show ?thesis by blast
qed

theorem product_name_nonempty_witness:
  "split_parts shouted_text = [cp ''F'' @ [220] @ cp ''R Pumpe XY'', cp ''DN 50''] \<and>
   product_name_of (simple_extraction shouted_text) = cp ''Pumpe XY'' \<and>
   product_name_of (create_fallback_info shouted_text) = cp ''Pumpe XY'' \<and>
   product_name_of (simple_extraction shouted_text) \<noteq> []"
proof -
  have s: "split_parts shouted_text = (cp ''F'' @ [220] @ cp ''R Pumpe XY'') # [cp ''DN 50'']"
    by (simp add: shouted_text_def split_parts_def string_eval)
  have v: "(if startswith (py_lower (cp ''F'' @ [220] @ cp ''R Pumpe XY'')) fuer_prefix
         then py_strip (drop 4 (cp ''F'' @ [220] @ cp ''R Pumpe XY''))
         else cp ''F'' @ [220] @ cp ''R Pumpe XY'') = cp ''Pumpe XY''"
    by (simp add: fuer_prefix_def string_eval)
  from product_name_nonempty [OF s]
  have "product_name_of (simple_extraction shouted_text) \<noteq> []"
    "product_name_of (create_fallback_info shouted_text) = product_name_of (simple_extraction shouted_text)"
    "product_name_of (simple_extraction shouted_text) =
       (if startswith (py_lower (cp ''F'' @ [220] @ cp ''R Pumpe XY'')) fuer_prefix
         then py_strip (drop 4 (cp ''F'' @ [220] @ cp ''R Pumpe XY''))
         else cp ''F'' @ [220] @ cp ''R Pumpe XY'')"
    by blast+
  then show ?thesis using s by (simp only: v) simp
qed

text \<open>
  C9 as stated fails: the normalized text \<open>|\<close> is not empty, and both builders return an
  empty product name for it.
\<close>

theorem blank_text_has_empty_name:
  "bar_text \<noteq> [] \<and> preprocess_text (PStr bar_text) = bar_text \<and>
   product_name_of (simple_extraction bar_text) = [] \<and>
   product_name_of (create_fallback_info bar_text) = []"
  by (simp add: bar_text_def string_eval normalizer_eval heuristic_eval product_name_of_def)

section \<open>Idempotence of the normalizer\<close>

lemma space_facts: "is_space SPACE" "\<not> is_space PIPE" "\<not> is_space SLASH" "SPACE \<noteq> SLASH" "PIPE \<noteq> SLASH"
  by (simp_all add: is_space_def SPACE_def PIPE_def SLASH_def)

subsection \<open>Each step leaves a normalized string as it is\<close>

lemma replace_slashes_id: "unslashed s \<Longrightarrow> replace_slashes s = s"
  by (induction s rule: replace_slashes.induct) (auto simp: unslashed_def)

lemma spaced_Cons:
  "spaced (c # cs) \<longleftrightarrow>
     (is_space c \<longrightarrow> c = SPACE) \<and> (cs = [] \<or> \<not> (is_space c \<and> is_space (hd cs))) \<and> spaced cs"
  by (auto simp: spaced_def successively_Cons)

lemma spaced_dropWhile: "spaced (c # cs) \<Longrightarrow> is_space c \<Longrightarrow> dropWhile is_space cs = cs"
  by (cases cs) (auto simp: spaced_Cons)

lemma collapse_ws_id: "spaced s \<Longrightarrow> collapse_ws s = s"
proof (induction s rule: collapse_ws.induct)
  case 1
  then show ?case by simp
next
  case (2 c cs)
  show ?case
  proof (cases "is_space c")
    case True
    then have d: "dropWhile is_space cs = cs" using "2.prems" by (simp add: spaced_dropWhile)
    have "c = SPACE" "spaced cs" using True "2.prems" by (auto simp: spaced_Cons)
    then show ?thesis using True d "2.IH"(1) by simp
  next
    case False
    then show ?thesis using "2.prems" "2.IH"(2) by (simp add: spaced_Cons)
  qed
qed

lemma match_separator_spaced:
  assumes "spaced s" and "match_separator s = Some rest"
  shows "s = SPACE # PIPE # SPACE # rest"
proof -
  from assms(2) obtain c cs p after a as where
    s: "s = c # cs" and c: "is_space c" and d: "dropWhile is_space cs = p # after" and
    p: "p = PIPE" and af: "after = a # as" and a: "is_space a" and r: "rest = dropWhile is_space as"
    by (auto simp: match_separator_def split: list.splits if_splits)
  have "dropWhile is_space cs = cs" using assms(1) s c by (simp add: spaced_dropWhile)
  with d have cs: "cs = PIPE # a # as" using p af by simp
  have sp: "spaced (a # as)" "c = SPACE" using assms(1) s cs c by (auto simp: spaced_Cons)
  then have "a = SPACE" "dropWhile is_space as = as"
    using a spaced_dropWhile [of a as] by (auto simp: spaced_Cons)
  with s cs sp r show ?thesis by simp
qed

lemma spaced_tail: "spaced (c # cs) \<Longrightarrow> spaced cs"
  by (simp add: spaced_Cons)

lemma sub_separators_id: "spaced s \<Longrightarrow> sub_separators s = s"
proof (induction s rule: sub_separators.induct)
  case 1
  then show ?case by simp
next
  case (2 c cs)
  show ?case
  proof (cases "match_separator (c # cs)")
    case None
    then show ?thesis using "2.IH"(1) spaced_tail [OF "2.prems"] by simp
  next
    case (Some rest)
    have s: "c # cs = SPACE # PIPE # SPACE # rest"
      using "2.prems" Some by (rule match_separator_spaced)
    from s have c: "c = SPACE" and cs: "cs = PIPE # SPACE # rest" by simp_all
    have "spaced rest" using "2.prems" by (auto simp: c cs spaced_Cons)
    then have "sub_separators rest = rest" using "2.IH"(2) Some by simp
    moreover have "sub_separators (c # cs) = [SPACE, PIPE, SPACE] @ sub_separators rest"
      by (simp add: Some)
    ultimately show ?thesis by (simp add: c cs)
  qed
qed

lemma py_strip_id: "trimmed s \<Longrightarrow> py_strip s = s"
proof (cases s)
  case Nil
  then show ?thesis by (simp add: py_strip_def)
next
  case (Cons a list)
  assume "trimmed s"
  then have h: "\<not> is_space (hd s)" and l: "\<not> is_space (last s)" using Cons by (auto simp: trimmed_def)
  have "dropWhile is_space s = s" using h Cons by simp
  moreover have "dropWhile is_space (rev s) = rev s"
  proof -
    obtain x xs where r: "rev s = x # xs" using Cons by (cases "rev s") auto
    then have "x = last s" using Cons by (metis hd_rev list.sel(1))
    then have "dropWhile is_space (x # xs) = x # xs" using l by simp
    then show ?thesis by (simp only: r)
  qed
  ultimately show ?thesis by (simp add: py_strip_def)
qed

lemma py_join_Cons: "xs \<noteq> [] \<Longrightarrow> py_join sep (x # xs) = x @ sep @ py_join sep xs"
  by (cases xs) auto

lemma join_split_from:
  "spaced s \<Longrightarrow> s = [] \<or> \<not> is_space (last s) \<Longrightarrow> cur \<noteq> [] \<or> s = [] \<or> \<not> is_space (hd s) \<Longrightarrow>
   py_join [SPACE] (split_ws_from cur s) = cur @ s"
proof (induction s arbitrary: cur)
  case Nil
  then show ?case by simp
next
  case (Cons c cs)
  show ?case
  proof (cases "is_space c")
    case True
    then have cur: "cur \<noteq> []" and c: "c = SPACE" using Cons.prems by (auto simp: spaced_Cons)
    have cs: "cs \<noteq> []" using True Cons.prems(2) by auto
    then have h: "\<not> is_space (hd cs)" and sp: "spaced cs" using True Cons.prems(1) by (auto simp: spaced_Cons)
    have l: "\<not> is_space (last cs)" using Cons.prems(2) cs by simp
    have "\<exists>x \<in> set cs. \<not> is_space x" using cs h by (cases cs) auto
    then have ne: "split_ws_from [] cs \<noteq> []" by (simp add: split_ws_from_nonempty)
    have "py_join [SPACE] (split_ws_from [] cs) = [] @ cs"
      using Cons.IH [of "[]"] sp l h by simp
    then show ?thesis using True cur c ne by (simp add: py_join_Cons)
  next
    case False
    have "py_join [SPACE] (split_ws_from (cur @ [c]) cs) = (cur @ [c]) @ cs"
      using Cons.IH [of "cur @ [c]"] Cons.prems by (cases cs) (auto simp: spaced_Cons)
    then show ?thesis using False by simp
  qed
qed

lemma join_split_id: "spaced s \<Longrightarrow> trimmed s \<Longrightarrow> py_join [SPACE] (py_split s) = s"
  using join_split_from [of s "[]"] by (cases s) (auto simp: py_split_def trimmed_def)

subsection \<open>The result of the normalizer is normalized\<close>

lemma unslashed_Cons:
  "unslashed (c # cs) \<longleftrightarrow> (cs = [] \<or> \<not> (c = SLASH \<and> hd cs = SLASH)) \<and> unslashed cs"
  by (auto simp: unslashed_def successively_Cons)

lemma unslashed_append: "unslashed (xs @ ys) \<Longrightarrow> unslashed xs \<and> unslashed ys"
  by (simp add: unslashed_def successively_append_iff)

lemma spaced_append: "spaced (xs @ ys) \<Longrightarrow> spaced xs \<and> spaced ys"
  by (simp add: spaced_def successively_append_iff)

lemma unslashed_dropWhile: "unslashed s \<Longrightarrow> unslashed (dropWhile P s)"
  using unslashed_append [of "takeWhile P s" "dropWhile P s"] by simp

lemma spaced_dropWhile_closed: "spaced s \<Longrightarrow> spaced (dropWhile P s)"
  using spaced_append [of "takeWhile P s" "dropWhile P s"] by simp

lemma strip_splits: "\<exists>pre post. s = pre @ py_strip s @ post"
proof -
  define x where "x = dropWhile is_space s"
  have "s = takeWhile is_space s @ x" by (simp add: x_def)
  moreover have "rev x = takeWhile is_space (rev x) @ dropWhile is_space (rev x)" by simp
  then have "x = rev (dropWhile is_space (rev x)) @ rev (takeWhile is_space (rev x))"
    by (metis rev_append rev_rev_ident)
  ultimately have "s = takeWhile is_space s @ py_strip s @ rev (takeWhile is_space (rev x))"
    by (simp add: py_strip_def x_def)
  then show ?thesis by blast
qed

lemma unslashed_strip: "unslashed s \<Longrightarrow> unslashed (py_strip s)"
  using strip_splits [of s] by (metis unslashed_append)

lemma spaced_strip: "spaced s \<Longrightarrow> spaced (py_strip s)"
  using strip_splits [of s] by (metis spaced_append)

lemma replace_slashes_head:
  "replace_slashes (b # rest) \<noteq> [] \<and>
   (hd (replace_slashes (b # rest)) = b \<or> hd (replace_slashes (b # rest)) = SPACE)"
  by (cases rest) auto

lemma unslashed_replace: "unslashed (replace_slashes s)"
proof (induction s rule: replace_slashes.induct)
  case (1 a b rest)
  show ?case
  proof (cases "a = SLASH \<and> b = SLASH")
    case True
    then show ?thesis using 1 by (cases "replace_slashes rest") (auto simp: unslashed_Cons space_facts)
  next
    case False
    then show ?thesis
      using 1 replace_slashes_head [of b rest] by (auto simp: unslashed_Cons space_facts)
  qed
qed (simp_all add: unslashed_def)

lemma match_separator_suffix: "match_separator s = Some rest \<Longrightarrow> \<exists>pre. s = pre @ rest"
proof -
  assume "match_separator s = Some rest"
  then obtain c cs p after a as where
    s: "s = c # cs" and d: "dropWhile is_space cs = p # after" and
    af: "after = a # as" and r: "rest = dropWhile is_space as"
    by (auto simp: match_separator_def split: list.splits if_splits)
  have "cs = takeWhile is_space cs @ p # a # as" using d af by (metis takeWhile_dropWhile_id)
  moreover have "as = takeWhile is_space as @ rest" using r by simp
  ultimately have "s = (c # takeWhile is_space cs @ p # a # takeWhile is_space as) @ rest"
    using s by simp
  then show ?thesis by blast
qed

lemma sub_separators_head:
  "sub_separators (c # cs) \<noteq> [] \<and>
   (hd (sub_separators (c # cs)) = c \<or> hd (sub_separators (c # cs)) = SPACE)"
  by (cases "match_separator (c # cs)") auto

lemma unslashed_sub: "unslashed s \<Longrightarrow> unslashed (sub_separators s)"
proof (induction s rule: sub_separators.induct)
  case 1
  then show ?case by simp
next
  case (2 c cs)
  show ?case
  proof (cases "match_separator (c # cs)")
    case None
    have tl: "unslashed (sub_separators cs)" using "2.IH"(1) None "2.prems" by (simp add: unslashed_Cons)
    show ?thesis
    proof (cases cs)
      case Nil
      then show ?thesis using None by (simp add: unslashed_def)
    next
      case (Cons d ds)
      then show ?thesis
        using None tl "2.prems" sub_separators_head [of d ds]
        by (auto simp: unslashed_Cons space_facts)
    qed
  next
    case (Some rest)
    then obtain pre where "c # cs = pre @ rest" using match_separator_suffix by blast
    then have "unslashed rest" using "2.prems" unslashed_append [of pre rest] by simp
    then have "unslashed (sub_separators rest)" using "2.IH"(2) Some by simp
    then show ?thesis
      using Some by (cases "sub_separators rest") (auto simp: unslashed_Cons space_facts)
  qed
qed

lemma collapse_ws_head:
  "collapse_ws (c # cs) \<noteq> [] \<and>
   (hd (collapse_ws (c # cs)) = c \<or> hd (collapse_ws (c # cs)) = SPACE)"
  by simp

lemma unslashed_collapse: "unslashed s \<Longrightarrow> unslashed (collapse_ws s)"
proof (induction s rule: collapse_ws.induct)
  case 1
  then show ?case by simp
next
  case (2 c cs)
  show ?case
  proof (cases "is_space c")
    case True
    have "unslashed (dropWhile is_space cs)"
      using "2.prems" by (simp add: unslashed_Cons unslashed_dropWhile)
    then have "unslashed (collapse_ws (dropWhile is_space cs))" using "2.IH"(1) True by simp
    then show ?thesis
      using True by (cases "collapse_ws (dropWhile is_space cs)") (auto simp: unslashed_Cons space_facts)
  next
    case False
    have tl: "unslashed (collapse_ws cs)" using "2.IH"(2) False "2.prems" by (simp add: unslashed_Cons)
    show ?thesis
    proof (cases cs)
      case Nil
      then show ?thesis using False by (simp add: unslashed_def)
    next
      case (Cons d ds)
      then show ?thesis
        using False tl "2.prems" collapse_ws_head [of d ds]
        by (auto simp: unslashed_Cons space_facts)
    qed
  qed
qed

lemma spaced_collapse: "spaced (collapse_ws s)"
proof (induction s rule: collapse_ws.induct)
  case 1
  then show ?case by (simp add: spaced_def)
next
  case (2 c cs)
  show ?case
  proof (cases "is_space c")
    case True
    define D where "D = dropWhile is_space cs"
    have sp: "spaced (collapse_ws D)" using "2.IH"(1) True by (simp add: D_def)
    have "collapse_ws D = [] \<or> \<not> is_space (hd (collapse_ws D))"
    proof (cases D)
      case Nil
      then show ?thesis by simp
    next
      case (Cons d ds)
      then have "\<not> is_space d" using hd_dropWhile [of is_space cs] by (simp add: D_def)
      then show ?thesis using Cons by simp
    qed
    then show ?thesis using True sp by (auto simp: spaced_Cons D_def space_facts)
  next
    case False
    then show ?thesis using "2.IH"(2) by (simp add: spaced_Cons)
  qed
qed

lemma preprocess_tidy:
  "unslashed (preprocess_text v) \<and> spaced (preprocess_text v) \<and> trimmed (preprocess_text v)"
proof (cases v)
  case (PStr t)
  then show ?thesis
    by (simp add: preprocess_text_def trimmed_py_strip spaced_strip spaced_collapse
        unslashed_strip unslashed_collapse unslashed_sub unslashed_replace)
qed (simp_all add: preprocess_text_def unslashed_def spaced_def trimmed_def)

text \<open>
  C5. The normalizer is idempotent: normalizing the result of the normalizer gives that
  result again, for a string and for any other value (whose result is the empty string).
\<close>

theorem preprocess_text_idempotent:
  "preprocess_text (PStr (preprocess_text x)) = preprocess_text x"
proof -
  define r where "r = preprocess_text x"
  have t: "unslashed r" "spaced r" "trimmed r" using preprocess_tidy [of x] by (simp_all add: r_def)
  have "preprocess_text (PStr r) = r"
    by (simp add: preprocess_text_def join_split_id replace_slashes_id sub_separators_id
        collapse_ws_id py_strip_id t)
  then show ?thesis by (simp add: r_def)
qed

end
